theory Spec2Isabelle
  imports Main "HOL-Library.Word"
begin

unbundle bit_operations_syntax

section \<open>Tower firmware: ring buffer, packet codec and flash store\<close>

text \<open>
  The development follows the C sources of the tower firmware: the byte FIFO of
  \<^verbatim>\<open>Lab5/Sources/FIFO.c\<close>, the packet encoder and decoder of
  \<^verbatim>\<open>Lab5/Sources/packet.c\<close>, the acknowledgement logic of
  \<^verbatim>\<open>Lab5/Sources/main.c\<close> and the flash driver of
  \<^verbatim>\<open>Lab4/Sources/Flash.c\<close>. Global variables of a module become a record
  that every function takes and returns.
\<close>

type_synonym byte = "8 word"

subsection \<open>Counting semaphores\<close>

text \<open>
  Modelled from the spec: the RTOS (\<^verbatim>\<open>OS.h\<close>, \<^verbatim>\<open>OS_SemaphoreCreate\<close>,
  \<^verbatim>\<open>OS_SemaphoreSignal\<close>, \<^verbatim>\<open>OS_SemaphoreWait\<close>) is not among the sources. A
  semaphore is its non-negative count. Signalling increments the count. Waiting with
  timeout 0 (wait forever) decrements a positive count and returns
  \<^verbatim>\<open>OS_NO_ERROR\<close>; on a zero count the caller is suspended, and in a run of a
  single caller nobody can signal, so the call never returns: the value \<open>None\<close>.
\<close>

type_synonym OS_ECB = nat

definition OS_SemaphoreCreate :: "nat \<Rightarrow> OS_ECB" where
  "OS_SemaphoreCreate initialCount = initialCount"

definition OS_SemaphoreSignal :: "OS_ECB \<Rightarrow> OS_ECB" where
  "OS_SemaphoreSignal sem = Suc sem"

definition OS_SemaphoreWait :: "OS_ECB \<Rightarrow> OS_ECB option" where
  "OS_SemaphoreWait sem = (if sem = 0 then None else Some (sem - 1))"

subsection \<open>The byte FIFO (FIFO.c)\<close>

text \<open>
  \<^verbatim>\<open>FIFO.h\<close> is not among the sources, so the capacity \<^verbatim>\<open>FIFO_SIZE\<close> is the
  parameter \<open>N\<close> of every operation, and the index and count fields are natural
  numbers: the code increments \<open>NbBytes\<close> only below \<open>N\<close> and reduces both indices
  modulo \<open>N\<close>, so no field leaves the range \<open>0..N\<close>, and a field type that can
  hold \<^verbatim>\<open>FIFO_SIZE\<close> never wraps. \<open>Buffer\<close> is the array of \<open>N\<close> bytes; the code
  indexes it with \<open>Start\<close> and \<open>End\<close> unchecked, and the invariant \<open>fifo_inv\<close> below,
  which \<^verbatim>\<open>FIFO_Init\<close> sets up and every operation keeps, says that both are inside
  it. The two semaphores of the structure are held by their counts.
  \<^verbatim>\<open>EnterCritical\<close> and \<^verbatim>\<open>ExitCritical\<close> mask interrupts around the body and
  have no effect on a sequential run.
\<close>

record TFIFO =
  Start :: nat
  End :: nat
  NbBytes :: nat
  Buffer :: "byte list"
  GetSemaphore :: OS_ECB
  PutSemaphore :: OS_ECB

definition FIFO_Init :: "nat \<Rightarrow> TFIFO \<Rightarrow> TFIFO" where
  "FIFO_Init N FIFO =
     FIFO\<lparr>NbBytes := 0, Start := 0, End := 0,
          GetSemaphore := OS_SemaphoreCreate 0,
          PutSemaphore := OS_SemaphoreCreate N\<rparr>"

definition FIFO_Put :: "nat \<Rightarrow> TFIFO \<Rightarrow> byte \<Rightarrow> bool \<times> TFIFO" where
  "FIFO_Put N FIFO data =
     (if NbBytes FIFO < N then
        (True, FIFO\<lparr>Buffer := (Buffer FIFO)[End FIFO := data],
                    NbBytes := NbBytes FIFO + 1,
                    End := (End FIFO + 1) mod N,
                    GetSemaphore := OS_SemaphoreSignal (GetSemaphore FIFO)\<rparr>)
      else (False, FIFO))"

text \<open>
  \<^verbatim>\<open>FIFO_Get\<close> writes through \<^verbatim>\<open>dataPtr\<close>: the model takes the byte that
  \<^verbatim>\<open>dataPtr\<close> points to before the call and returns the byte it points to
  afterwards.
\<close>

definition FIFO_Get :: "nat \<Rightarrow> TFIFO \<Rightarrow> byte \<Rightarrow> bool \<times> TFIFO \<times> byte" where
  "FIFO_Get N FIFO dataPtr =
     (if NbBytes FIFO > 0 then
        (True, FIFO\<lparr>NbBytes := NbBytes FIFO - 1,
                    Start := (Start FIFO + 1) mod N,
                    PutSemaphore := OS_SemaphoreSignal (PutSemaphore FIFO)\<rparr>,
         Buffer FIFO ! Start FIFO)
      else (False, FIFO, dataPtr))"

text \<open>
  A call either returns, or never returns because it waits on a semaphore whose
  count is zero or on a byte that never arrives (\<open>Blocked\<close>), or stops in
  \<^verbatim>\<open>PE_DEBUGHALT\<close> (\<open>Halted\<close>), or leaves the behaviour defined by C, for
  example by a store outside an array (\<open>Fault\<close>).
\<close>

datatype 'a outcome = Returns 'a | Blocked | Halted | Fault

definition FIFO_BlockingGet :: "nat \<Rightarrow> TFIFO \<Rightarrow> byte \<Rightarrow> (TFIFO \<times> byte) outcome" where
  "FIFO_BlockingGet N FIFO dataPtr =
     (case OS_SemaphoreWait (GetSemaphore FIFO) of
        None \<Rightarrow> Blocked
      | Some sem \<Rightarrow>
          (case FIFO_Get N (FIFO\<lparr>GetSemaphore := sem\<rparr>) dataPtr of
             (False, _) \<Rightarrow> Halted
           | (True, FIFO', d) \<Rightarrow> Returns (FIFO', d)))"

definition FIFO_BlockingPut :: "nat \<Rightarrow> TFIFO \<Rightarrow> byte \<Rightarrow> TFIFO outcome" where
  "FIFO_BlockingPut N FIFO data =
     (case OS_SemaphoreWait (PutSemaphore FIFO) of
        None \<Rightarrow> Blocked
      | Some sem \<Rightarrow>
          (case FIFO_Put N (FIFO\<lparr>PutSemaphore := sem\<rparr>) data of
             (False, _) \<Rightarrow> Halted
           | (True, FIFO') \<Rightarrow> Returns FIFO'))"

text \<open>
  The bytes waiting in the buffer, oldest first, and the well-formedness of a buffer
  of capacity \<open>N\<close>. Both are observations for the theorems, not code.
\<close>

definition fifo_contents :: "nat \<Rightarrow> TFIFO \<Rightarrow> byte list" where
  "fifo_contents N FIFO =
     map (\<lambda>i. Buffer FIFO ! ((Start FIFO + i) mod N)) [0..<NbBytes FIFO]"

definition fifo_inv :: "nat \<Rightarrow> TFIFO \<Rightarrow> bool" where
  "fifo_inv N FIFO \<longleftrightarrow>
     0 < N \<and> length (Buffer FIFO) = N \<and> Start FIFO < N \<and> NbBytes FIFO \<le> N \<and>
     End FIFO = (Start FIFO + NbBytes FIFO) mod N"

text \<open>
  A sequence of non-blocking calls. The run keeps, beside the buffer, the bytes that
  \<^verbatim>\<open>FIFO_Put\<close> accepted and the bytes that \<^verbatim>\<open>FIFO_Get\<close> delivered, each in call
  order. \<open>Try_Get d\<close> is a call whose \<^verbatim>\<open>dataPtr\<close> points to a byte holding \<open>d\<close>.
\<close>

datatype try_op = Try_Put byte | Try_Get byte

fun fifo_run :: "nat \<Rightarrow> try_op list \<Rightarrow> TFIFO \<times> byte list \<times> byte list \<Rightarrow> TFIFO \<times> byte list \<times> byte list" where
  "fifo_run N [] s = s"
| "fifo_run N (Try_Put b # ops) (FIFO, ins, outs) =
     (case FIFO_Put N FIFO b of
        (ok, FIFO') \<Rightarrow> fifo_run N ops (FIFO', if ok then ins @ [b] else ins, outs))"
| "fifo_run N (Try_Get d # ops) (FIFO, ins, outs) =
     (case FIFO_Get N FIFO d of
        (ok, FIFO', d') \<Rightarrow> fifo_run N ops (FIFO', ins, if ok then outs @ [d'] else outs))"

text \<open>
  A sequence of completed calls of all four operations. A call that does not return
  ends the run with its outcome. The number beside the buffer counts the
  non-blocking calls that succeeded.
\<close>

datatype fifo_call = Call_Put byte | Call_Get byte | Call_BlockingPut byte | Call_BlockingGet byte

fun is_blocking :: "fifo_call \<Rightarrow> bool" where
  "is_blocking (Call_Put b) = False"
| "is_blocking (Call_Get d) = False"
| "is_blocking (Call_BlockingPut b) = True"
| "is_blocking (Call_BlockingGet d) = True"

fun do_call :: "nat \<Rightarrow> TFIFO \<Rightarrow> fifo_call \<Rightarrow> (TFIFO \<times> nat) outcome" where
  "do_call N FIFO (Call_Put b) =
     (case FIFO_Put N FIFO b of (ok, FIFO') \<Rightarrow> Returns (FIFO', if ok then 1 else 0))"
| "do_call N FIFO (Call_Get d) =
     (case FIFO_Get N FIFO d of (ok, FIFO', d') \<Rightarrow> Returns (FIFO', if ok then 1 else 0))"
| "do_call N FIFO (Call_BlockingPut b) =
     (case FIFO_BlockingPut N FIFO b of
        Returns FIFO' \<Rightarrow> Returns (FIFO', 0)
      | Blocked \<Rightarrow> Blocked | Halted \<Rightarrow> Halted | Fault \<Rightarrow> Fault)"
| "do_call N FIFO (Call_BlockingGet d) =
     (case FIFO_BlockingGet N FIFO d of
        Returns (FIFO', d') \<Rightarrow> Returns (FIFO', 0)
      | Blocked \<Rightarrow> Blocked | Halted \<Rightarrow> Halted | Fault \<Rightarrow> Fault)"

fun fifo_exec :: "nat \<Rightarrow> TFIFO \<Rightarrow> fifo_call list \<Rightarrow> (TFIFO \<times> nat) outcome" where
  "fifo_exec N FIFO [] = Returns (FIFO, 0)"
| "fifo_exec N FIFO (c # cs) =
     (case do_call N FIFO c of
        Returns (FIFO', k) \<Rightarrow>
          (case fifo_exec N FIFO' cs of
             Returns (FIFO'', k') \<Rightarrow> Returns (FIFO'', k + k')
           | Blocked \<Rightarrow> Blocked | Halted \<Rightarrow> Halted | Fault \<Rightarrow> Fault)
      | Blocked \<Rightarrow> Blocked | Halted \<Rightarrow> Halted | Fault \<Rightarrow> Fault)"

subsection \<open>The packet codec (packet.c)\<close>

text \<open>
  The module state: the public \<^verbatim>\<open>Packet\<close>, the five-byte array \<^verbatim>\<open>PacketBuf\<close> and
  its fill count \<^verbatim>\<open>BufNbBytes\<close>, a \<^verbatim>\<open>uint8_t\<close>.
\<close>

definition PACKET_SIZE :: nat where
  "PACKET_SIZE = 5"

record TPacket =
  Packet_Command :: byte
  Packet_Parameter1 :: byte
  Packet_Parameter2 :: byte
  Packet_Parameter3 :: byte

record packet_state =
  Packet :: TPacket
  PacketBuf :: "byte list"
  BufNbBytes :: byte

text \<open>
  \<^verbatim>\<open>ReadNextByte\<close> takes the byte that the blocking \<^verbatim>\<open>UART_InChar\<close> delivered. The
  store \<^verbatim>\<open>PacketBuf[BufNbBytes] = data\<close> is inside the array only for an index below
  \<^verbatim>\<open>PACKET_SIZE\<close>; the code does not check it, and the model gives \<open>None\<close> for a
  store outside.
\<close>

definition ReadNextByte :: "packet_state \<Rightarrow> byte \<Rightarrow> packet_state option" where
  "ReadNextByte st data =
     (if unat (BufNbBytes st) < PACKET_SIZE then
        Some (st\<lparr>PacketBuf := (PacketBuf st)[unat (BufNbBytes st) := data],
                 BufNbBytes := BufNbBytes st + 1\<rparr>)
      else None)"

definition IsChecksumValid :: "packet_state \<Rightarrow> bool" where
  "IsChecksumValid st =
     (fold (\<lambda>i checksum. checksum XOR PacketBuf st ! i) [1..<PACKET_SIZE - 1] (PacketBuf st ! 0)
        = PacketBuf st ! (PACKET_SIZE - 1))"

definition ShiftBuffer :: "packet_state \<Rightarrow> packet_state" where
  "ShiftBuffer st =
     st\<lparr>PacketBuf := fold (\<lambda>i buf. buf[i - 1 := buf ! i]) [1..<PACKET_SIZE] (PacketBuf st),
        BufNbBytes := BufNbBytes st - 1\<rparr>"

definition SetValuesAndResetBuffer :: "packet_state \<Rightarrow> packet_state" where
  "SetValuesAndResetBuffer st =
     st\<lparr>Packet := \<lparr>Packet_Command = PacketBuf st ! 0,
                    Packet_Parameter1 = PacketBuf st ! 1,
                    Packet_Parameter2 = PacketBuf st ! 2,
                    Packet_Parameter3 = PacketBuf st ! 3\<rparr>,
        BufNbBytes := 0\<rparr>"

text \<open>
  \<^verbatim>\<open>Packet_Get\<close> loops until a candidate passes the checksum. The bytes that will
  arrive on the receive side are the list \<open>rx\<close>; when none is left the blocking read
  never returns. A returning call gives the new state, the bytes not yet read and
  the number of \<^verbatim>\<open>ShiftBuffer\<close> calls it made, which the loop only counts.
\<close>

fun Packet_Get_loop :: "nat \<Rightarrow> packet_state \<Rightarrow> byte list \<Rightarrow> (packet_state \<times> byte list \<times> nat) outcome" where
  "Packet_Get_loop shifts st [] = Blocked"
| "Packet_Get_loop shifts st (data # rx) =
     (case ReadNextByte st data of
        None \<Rightarrow> Fault
      | Some st1 \<Rightarrow>
          (if unat (BufNbBytes st1) \<ge> PACKET_SIZE then
             (if IsChecksumValid st1 then Returns (SetValuesAndResetBuffer st1, rx, shifts)
              else Packet_Get_loop (Suc shifts) (ShiftBuffer st1) rx)
           else Packet_Get_loop shifts st1 rx))"

definition Packet_Get :: "packet_state \<Rightarrow> byte list \<Rightarrow> (packet_state \<times> byte list \<times> nat) outcome" where
  "Packet_Get st rx = Packet_Get_loop 0 st rx"

text \<open>
  \<open>lhs && rhs\<close> of C on calls that change a state: the right operand runs only when
  the left one gave true.
\<close>

definition and_also :: "bool \<times> 's \<Rightarrow> ('s \<Rightarrow> bool \<times> 's) \<Rightarrow> bool \<times> 's" where
  "and_also lhs rhs = (if fst lhs then rhs (snd lhs) else lhs)"

text \<open>
  \<^verbatim>\<open>Packet_Put\<close> sends through \<^verbatim>\<open>UART_OutChar\<close>. The \<^verbatim>\<open>UART.c\<close> of Lab5 is not
  among the sources, so the byte sink is the parameter \<open>OutChar\<close>: a function from
  the sink's state and a byte to the result of the call and the new state.
  \<^verbatim>\<open>PutMutex\<close> is the semaphore that \<^verbatim>\<open>Packet_Init\<close> creates with count 1.
\<close>

definition Packet_Put ::
  "('s \<Rightarrow> byte \<Rightarrow> bool \<times> 's) \<Rightarrow> OS_ECB \<Rightarrow> 's \<Rightarrow> byte \<Rightarrow> byte \<Rightarrow> byte \<Rightarrow> byte \<Rightarrow> (bool \<times> OS_ECB \<times> 's) outcome" where
  "Packet_Put OutChar PutMutex tx command parameter1 parameter2 parameter3 =
     (let checkSum = ((command XOR parameter1) XOR parameter2) XOR parameter3 in
      case OS_SemaphoreWait PutMutex of
        None \<Rightarrow> Blocked
      | Some mutex \<Rightarrow>
          (let wasSuccess =
                 and_also (and_also (and_also (and_also
                   (OutChar tx command)
                   (\<lambda>tx. OutChar tx parameter1))
                   (\<lambda>tx. OutChar tx parameter2))
                   (\<lambda>tx. OutChar tx parameter3))
                   (\<lambda>tx. OutChar tx checkSum)
           in Returns (fst wasSuccess, OS_SemaphoreSignal mutex, snd wasSuccess)))"

text \<open>
  The sink of \<^verbatim>\<open>Lab2/Sources/UART.c\<close>, the one \<^verbatim>\<open>UART.c\<close> among the sources:
  \<^verbatim>\<open>UART_OutChar\<close> puts the byte into the transmit FIFO.
\<close>

definition UART_OutChar :: "nat \<Rightarrow> TFIFO \<Rightarrow> byte \<Rightarrow> bool \<times> TFIFO" where
  "UART_OutChar N TxFIFO data = FIFO_Put N TxFIFO data"

text \<open>
  The five wire bytes of a packet, and offering a list of bytes to a sink in order
  until the first one is rejected: the number of bytes accepted and the sink
  afterwards. Both follow the words of the specification.
\<close>

definition wire_bytes :: "byte \<Rightarrow> byte \<Rightarrow> byte \<Rightarrow> byte \<Rightarrow> byte list" where
  "wire_bytes c p1 p2 p3 = [c, p1, p2, p3, c XOR p1 XOR p2 XOR p3]"

fun offer :: "('s \<Rightarrow> byte \<Rightarrow> bool \<times> 's) \<Rightarrow> 's \<Rightarrow> byte list \<Rightarrow> nat \<times> 's" where
  "offer sink s [] = (0, s)"
| "offer sink s (b # bs) =
     (if fst (sink s b) then (Suc (fst (offer sink (snd (sink s b)) bs)), snd (offer sink (snd (sink s b)) bs))
      else (0, snd (sink s b)))"

text \<open>A five-byte window passes the checksum test of the specification.\<close>

definition checksum_ok :: "byte list \<Rightarrow> bool" where
  "checksum_ok w = (w ! 4 = w ! 0 XOR w ! 1 XOR w ! 2 XOR w ! 3)"

subsection \<open>Acknowledgement (main.c)\<close>

definition PACKET_ACK_MASK :: byte where
  "PACKET_ACK_MASK = push_bit 7 1"

text \<open>
  \<^verbatim>\<open>(wasSuccess << 7) | ~PACKET_ACK_MASK\<close> is computed in \<^verbatim>\<open>int\<close>, after the integer
  promotions, and stored in a \<^verbatim>\<open>uint8_t\<close>. The result of \<^verbatim>\<open>Packet_Put\<close> is cast
  to void.
\<close>

definition SendAcknowledgeIfRequired ::
  "('s \<Rightarrow> byte \<Rightarrow> bool \<times> 's) \<Rightarrow> OS_ECB \<Rightarrow> 's \<Rightarrow> TPacket \<Rightarrow> bool \<Rightarrow> (OS_ECB \<times> 's) outcome" where
  "SendAcknowledgeIfRequired OutChar PutMutex tx pkt wasSuccess =
     (if Packet_Command pkt AND PACKET_ACK_MASK \<noteq> 0 then
        (let acknowledgeMask =
               (ucast (push_bit 7 (of_bool wasSuccess :: 32 word)
                       OR NOT (ucast PACKET_ACK_MASK :: 32 word)) :: byte)
         in case Packet_Put OutChar PutMutex tx
                   (Packet_Command pkt AND acknowledgeMask)
                   (Packet_Parameter1 pkt) (Packet_Parameter2 pkt) (Packet_Parameter3 pkt) of
              Returns (sent, mutex, tx') \<Rightarrow> Returns (mutex, tx')
            | Blocked \<Rightarrow> Blocked | Halted \<Rightarrow> Halted | Fault \<Rightarrow> Fault)
      else Returns (PutMutex, tx))"

subsection \<open>The flash driver (Flash.c)\<close>

text \<open>
  \<^verbatim>\<open>Flash.h\<close> is not among the sources: the two address constants
  \<^verbatim>\<open>FLASH_DATA_START\<close> and \<^verbatim>\<open>FLASH_DATA_END\<close> are parameters of the functions that
  use them. Addresses are \<^verbatim>\<open>uint32_t\<close>, sizes and the allocation bitmap
  \<^verbatim>\<open>uint8_t\<close>; the parameter \<^verbatim>\<open>size\<close> of the source is \<open>sz\<close> here. A
  \<^verbatim>\<open>uint64_t\<close> phrase is held as its eight bytes in memory order (the Cortex-M4
  is little-endian), because the driver writes into it through a byte pointer.
\<close>

datatype FlashCommand = PROGRAM_PHRASE | ERASE_SECTOR

record TFCCOB =
  fccob_command :: FlashCommand
  fccob_address :: "32 word"
  fccob_data :: "byte list"

text \<open>
  Modelled from the spec: the flash controller behind the \<^verbatim>\<open>FTFE\<close> registers is
  hardware, seen by the driver as the device command primitive of the
  specification. The device state is the phrase stored at \<^verbatim>\<open>FLASH_DATA_START\<close>
  (every command of this driver is addressed there) and, for the commands still to
  come, whether the controller will raise a protection violation or access error.
  A command that raises an error changes nothing. A successful erase of the sector
  leaves every byte of the phrase at \<open>0xFF\<close>. A successful program command can only
  clear bits: each stored byte becomes its old value AND the programmed one. Every
  command completes, so the loop that polls \<^verbatim>\<open>CCIF\<close> ends.
\<close>

record flash =
  Phrase :: "byte list"
  Errors :: "bool list"

definition perform :: "TFCCOB \<Rightarrow> flash \<Rightarrow> flash" where
  "perform cmd fl =
     (case fccob_command cmd of
        ERASE_SECTOR \<Rightarrow> fl\<lparr>Phrase := replicate 8 0xFF\<rparr>
      | PROGRAM_PHRASE \<Rightarrow> fl\<lparr>Phrase := map2 (AND) (Phrase fl) (fccob_data cmd)\<rparr>)"

definition LaunchCommand :: "TFCCOB \<Rightarrow> flash \<Rightarrow> bool \<times> flash" where
  "LaunchCommand cmd fl =
     (case Errors fl of
        [] \<Rightarrow> (True, perform cmd fl)
      | error # later \<Rightarrow>
          (if error then (False, fl\<lparr>Errors := later\<rparr>)
           else (True, perform cmd (fl\<lparr>Errors := later\<rparr>))))"

definition WritePhrase :: "32 word \<Rightarrow> byte list \<Rightarrow> flash \<Rightarrow> bool \<times> flash" where
  "WritePhrase address phrase fl =
     LaunchCommand \<lparr>fccob_command = PROGRAM_PHRASE, fccob_address = address,
                    fccob_data = phrase\<rparr> fl"

text \<open>
  \<^verbatim>\<open>EraseSector\<close> leaves \<^verbatim>\<open>command.data\<close> unset; the erase command does not read
  it, and the model puts the empty list there.
\<close>

definition EraseSector :: "32 word \<Rightarrow> flash \<Rightarrow> bool \<times> flash" where
  "EraseSector address fl =
     LaunchCommand \<lparr>fccob_command = ERASE_SECTOR, fccob_address = address,
                    fccob_data = []\<rparr> fl"

definition ModifySector :: "32 word \<Rightarrow> byte list \<Rightarrow> flash \<Rightarrow> bool \<times> flash" where
  "ModifySector address phrase fl =
     and_also (EraseSector address fl) (\<lambda>fl. WritePhrase address phrase fl)"

text \<open>
  The first \<open>n\<close> bytes, in memory order, of the object that \<^verbatim>\<open>data\<close> points to, and
  a store of some bytes into a copy of a phrase at a byte offset.
\<close>

definition le_bytes :: "nat \<Rightarrow> 32 word \<Rightarrow> byte list" where
  "le_bytes n w = map (\<lambda>k. ucast (drop_bit (8 * k) w)) [0..<n]"

definition store_bytes :: "byte list \<Rightarrow> nat \<Rightarrow> byte list \<Rightarrow> byte list" where
  "store_bytes phrase at bs = take at phrase @ bs @ drop (at + length bs) phrase"

text \<open>
  The macro \<^verbatim>\<open>SET_DATA(type, dataPtr, data)\<close> is the assignment
  \<^verbatim>\<open>*(type *)dataPtr = *(type *)data\<close>, and \<^verbatim>\<open>dataPtr\<close> points into the local
  \<^verbatim>\<open>phrase\<close>, an object declared \<^verbatim>\<open>uint64_t\<close>. With \<^verbatim>\<open>uint8_t\<close> the store goes
  through a character type, which may access any object: one byte of the copy is
  replaced. With \<^verbatim>\<open>uint16_t\<close> and \<^verbatim>\<open>uint32_t\<close> the store goes through an lvalue
  of a type that is not compatible with \<^verbatim>\<open>uint64_t\<close>; C gives such an access no
  meaning, and a compiler may take it not to reach \<^verbatim>\<open>phrase\<close> at all and pass on
  the copy as it was read. The value of \<^verbatim>\<open>phrase\<close> after such a store is not
  determined by the program: \<open>None\<close>.
\<close>

definition SET_DATA :: "byte \<Rightarrow> byte list \<Rightarrow> nat \<Rightarrow> 32 word \<Rightarrow> byte list option" where
  "SET_DATA sz phrase dataPtr datum =
     (if sz = 1 then Some (store_bytes phrase dataPtr (le_bytes (unat sz) datum)) else None)"

text \<open>
  \<^verbatim>\<open>Flash_WriteN\<close>. The sum \<^verbatim>\<open>address + size\<close> is a \<^verbatim>\<open>uint32_t\<close> sum and wraps.
  The operands of \<^verbatim>\<open>||\<close> are tried from the left, so \<^verbatim>\<open>address % size\<close> is reached
  only when the two comparisons are false; for \<open>sz = 0\<close> it divides by zero. The
  copy \<^verbatim>\<open>phrase\<close> is a local of eight bytes; a store through \<^verbatim>\<open>dataPtr\<close> that does
  not fit into it is a store outside the object. Both are \<open>Fault\<close>.

  The last line hands the copy to \<^verbatim>\<open>ModifySector\<close>, which is
  \<^verbatim>\<open>EraseSector(address) && WritePhrase(address, phrase)\<close>. The erase command does
  not read the phrase. When the value of the copy is not determined (sizes 2 and 4)
  and the erase reports an error, the call returns false as for any other phrase;
  when the erase succeeds, the program command is given a phrase that the program
  does not determine, and the outcome is \<open>Fault\<close>.
\<close>

definition Flash_WriteN ::
  "32 word \<Rightarrow> 32 word \<Rightarrow> 32 word \<Rightarrow> 32 word \<Rightarrow> byte \<Rightarrow> flash \<Rightarrow> (bool \<times> flash) outcome" where
  "Flash_WriteN FLASH_DATA_START FLASH_DATA_END address datum sz fl =
     (if address < FLASH_DATA_START \<or> address + ucast sz > FLASH_DATA_END
      then Returns (False, fl)
      else if sz = 0 then Fault
      else if address mod ucast sz \<noteq> 0 then Returns (False, fl)
      else
        (let phrase = Phrase fl;
             dataPtr = unat (address - FLASH_DATA_START)
         in if sz = 1 \<or> sz = 2 \<or> sz = 4 then
              (if dataPtr + unat sz \<le> length phrase
               then (case SET_DATA sz phrase dataPtr datum of
                       Some phrase' \<Rightarrow> Returns (ModifySector FLASH_DATA_START phrase' fl)
                     | None \<Rightarrow>
                         (case EraseSector FLASH_DATA_START fl of
                            (erased, fl') \<Rightarrow> if erased then Fault else Returns (False, fl')))
               else Fault)
            else Returns (False, fl)))"

text \<open>
  The three public write functions call \<^verbatim>\<open>Flash_WriteN\<close> and end without a
  \<^verbatim>\<open>return\<close> statement: the value the caller receives is not determined by the
  program.
\<close>

datatype retval = Value bool | Indeterminate

definition Flash_Write32 ::
  "32 word \<Rightarrow> 32 word \<Rightarrow> 32 word \<Rightarrow> 32 word \<Rightarrow> flash \<Rightarrow> (retval \<times> flash) outcome" where
  "Flash_Write32 FLASH_DATA_START FLASH_DATA_END address datum fl =
     (case Flash_WriteN FLASH_DATA_START FLASH_DATA_END address datum 4 fl of
        Returns (written, fl') \<Rightarrow> Returns (Indeterminate, fl')
      | Blocked \<Rightarrow> Blocked | Halted \<Rightarrow> Halted | Fault \<Rightarrow> Fault)"

definition Flash_Write16 ::
  "32 word \<Rightarrow> 32 word \<Rightarrow> 32 word \<Rightarrow> 16 word \<Rightarrow> flash \<Rightarrow> (retval \<times> flash) outcome" where
  "Flash_Write16 FLASH_DATA_START FLASH_DATA_END address datum fl =
     (case Flash_WriteN FLASH_DATA_START FLASH_DATA_END address (ucast datum) 2 fl of
        Returns (written, fl') \<Rightarrow> Returns (Indeterminate, fl')
      | Blocked \<Rightarrow> Blocked | Halted \<Rightarrow> Halted | Fault \<Rightarrow> Fault)"

definition Flash_Write8 ::
  "32 word \<Rightarrow> 32 word \<Rightarrow> 32 word \<Rightarrow> byte \<Rightarrow> flash \<Rightarrow> (retval \<times> flash) outcome" where
  "Flash_Write8 FLASH_DATA_START FLASH_DATA_END address datum fl =
     (case Flash_WriteN FLASH_DATA_START FLASH_DATA_END address (ucast datum) 1 fl of
        Returns (written, fl') \<Rightarrow> Returns (Indeterminate, fl')
      | Blocked \<Rightarrow> Blocked | Halted \<Rightarrow> Halted | Fault \<Rightarrow> Fault)"

definition Flash_Erase :: "32 word \<Rightarrow> flash \<Rightarrow> bool \<times> flash" where
  "Flash_Erase FLASH_DATA_START fl = EraseSector FLASH_DATA_START fl"

text \<open>
  \<^verbatim>\<open>Flash_AllocateVar\<close>. The search loop steps \<^verbatim>\<open>offset\<close> by \<^verbatim>\<open>size\<close> in
  \<^verbatim>\<open>uint8_t\<close>; nothing in the loop itself makes it end for every \<open>sz\<close>, so it is
  a partial function: \<open>None\<close> is a loop that never ends, \<open>Some None\<close> a search that
  found nothing, \<open>Some (Some (offset, allocMask))\<close> a block found. The static
  \<^verbatim>\<open>availableBytes\<close> is passed in and returned; the result is the address stored
  through \<^verbatim>\<open>variable\<close> when the call returns true, and \<open>None\<close> when it returns
  false and leaves \<^verbatim>\<open>*variable\<close> alone.
\<close>

partial_function (option) AllocateVar_loop ::
  "byte \<Rightarrow> byte \<Rightarrow> byte \<Rightarrow> byte \<Rightarrow> (byte \<times> byte) option option" where
  "AllocateVar_loop availableBytes sz offset allocMask =
     (if offset < 8 then
        (if allocMask AND availableBytes = 0 then Some (Some (offset, allocMask))
         else AllocateVar_loop availableBytes sz (offset + sz)
                (push_bit (unat sz) allocMask))
      else Some None)"

declare AllocateVar_loop.simps [code]

definition Flash_AllocateVar :: "32 word \<Rightarrow> byte \<Rightarrow> byte \<Rightarrow> (32 word option \<times> byte) option" where
  "Flash_AllocateVar FLASH_DATA_START availableBytes sz =
     (if sz \<noteq> 1 \<and> sz \<noteq> 2 \<and> sz \<noteq> 4 then Some (None, availableBytes)
      else
        (let allocMask = push_bit (unat sz) 1 - 1 in
         case AllocateVar_loop availableBytes sz 0 allocMask of
           None \<Rightarrow> None
         | Some None \<Rightarrow> Some (None, availableBytes)
         | Some (Some (offset, allocMask)) \<Rightarrow>
             Some (Some (FLASH_DATA_START + ucast offset), availableBytes OR allocMask)))"

text \<open>
  The allocation rule in the words of the specification: the window of \<open>sz\<close> bits
  at an offset is free when none of its bits is set in the bitmap; the candidate
  offsets are \<open>0\<close>, \<open>sz\<close>, \<open>2 * sz\<close>, ... below 8; the first free one wins and
  its bits are set.
\<close>

definition window_free :: "byte \<Rightarrow> nat \<Rightarrow> nat \<Rightarrow> bool" where
  "window_free bitmap sz offset = (\<forall>i \<in> {offset..<offset + sz}. \<not> bit bitmap i)"

definition first_fit :: "byte \<Rightarrow> nat \<Rightarrow> nat option" where
  "first_fit bitmap sz =
     find (window_free bitmap sz) (map (\<lambda>k. k * sz) [0..<8 div sz])"

definition mark_window :: "byte \<Rightarrow> nat \<Rightarrow> nat \<Rightarrow> byte" where
  "mark_window bitmap sz offset = bitmap OR push_bit offset (mask sz)"

subsection \<open>Static storage at start-up\<close>

text \<open>
  The FIFOs of the UART module and the variables of the packet module are objects
  with static storage duration: C sets them to zero before \<^verbatim>\<open>main\<close> runs.
\<close>

definition static_TFIFO :: "nat \<Rightarrow> TFIFO" where
  "static_TFIFO N = \<lparr>Start = 0, End = 0, NbBytes = 0, Buffer = replicate N 0,
                     GetSemaphore = 0, PutSemaphore = 0\<rparr>"

definition static_packet_state :: packet_state where
  "static_packet_state =
     \<lparr>Packet = \<lparr>Packet_Command = 0, Packet_Parameter1 = 0,
                 Packet_Parameter2 = 0, Packet_Parameter3 = 0\<rparr>,
      PacketBuf = replicate PACKET_SIZE 0, BufNbBytes = 0\<rparr>"

section \<open>Theorems\<close>

subsection \<open>Ring buffer\<close>

lemma mod_add_inj:
  fixes a i j N :: nat
  assumes "i < j" "j < N"
  shows "(a + i) mod N \<noteq> (a + j) mod N"
proof
  assume "(a + i) mod N = (a + j) mod N"
  then have "(a + j) mod N = (a + i) mod N" by simp
  moreover have "a + i \<le> a + j" using assms by simp
  ultimately have "N dvd (a + j) - (a + i)" by (simp add: mod_eq_dvd_iff_nat)
  then have "N dvd j - i" by simp
  moreover have "0 < j - i" "j - i < N" using assms by simp_all
  ultimately show False by (meson dvd_imp_le not_less)
qed

lemma fifo_inv_Init:
  "0 < N \<Longrightarrow> length (Buffer FIFO) = N \<Longrightarrow> fifo_inv N (FIFO_Init N FIFO)"
  by (simp add: fifo_inv_def FIFO_Init_def OS_SemaphoreCreate_def)

lemma fifo_inv_Put: "fifo_inv N FIFO \<Longrightarrow> fifo_inv N (snd (FIFO_Put N FIFO b))"
  by (auto simp add: fifo_inv_def FIFO_Put_def mod_Suc_eq)

lemma fifo_inv_Get: "fifo_inv N FIFO \<Longrightarrow> fifo_inv N (fst (snd (FIFO_Get N FIFO d)))"
  apply (auto simp add: fifo_inv_def FIFO_Get_def)
  using less_eq_Suc_le mod_Suc mod_if by auto

lemma fifo_contents_Put:
  assumes "fifo_inv N FIFO" "NbBytes FIFO < N"
  shows "fifo_contents N (snd (FIFO_Put N FIFO b)) = fifo_contents N FIFO @ [b]"
proof -
  have "\<And>i. i < NbBytes FIFO \<Longrightarrow>
          (Start FIFO + NbBytes FIFO) mod N \<noteq> (Start FIFO + i) mod N"
    using assms(2) mod_add_inj by metis
  then show ?thesis
    using assms by (auto simp add: fifo_contents_def FIFO_Put_def fifo_inv_def)
qed

lemma fifo_contents_Get:
  assumes "fifo_inv N FIFO" "0 < NbBytes FIFO"
  shows "fifo_contents N FIFO =
         snd (snd (FIFO_Get N FIFO d)) # fifo_contents N (fst (snd (FIFO_Get N FIFO d)))"
proof -
  have "[0..<NbBytes FIFO] = 0 # map Suc [0..<NbBytes FIFO - 1]"
    using assms(2) by (metis One_nat_def Suc_pred map_Suc_upt upt_conv_Cons)
  then show ?thesis
    using assms
    by (simp add: fifo_contents_def FIFO_Get_def fifo_inv_def mod_add_left_eq comp_def)
qed

text \<open>
  C10. A failing non-blocking call changes nothing. \<^verbatim>\<open>FIFO_Get\<close> on an empty
  buffer returns false, gives back the buffer as it was (indices, count, stored bytes
  and both semaphore counts) and leaves the byte behind \<^verbatim>\<open>dataPtr\<close> as it was.
  \<^verbatim>\<open>FIFO_Put\<close> on a full buffer (the count is not below the capacity) returns false
  and gives back the buffer as it was.
\<close>

theorem FIFO_failure_atomic:
  "(NbBytes FIFO = 0 \<longrightarrow> FIFO_Get N FIFO d = (False, FIFO, d)) \<and>
   (\<not> NbBytes FIFO < N \<longrightarrow> FIFO_Put N FIFO b = (False, FIFO))"
  by (simp add: FIFO_Get_def FIFO_Put_def)

theorem FIFO_failure_atomic_witness:
  "FIFO_Get 2 \<lparr>Start = 1, End = 1, NbBytes = 0, Buffer = [7, 9],
               GetSemaphore = 0, PutSemaphore = 2\<rparr> 0x55 =
     (False, \<lparr>Start = 1, End = 1, NbBytes = 0, Buffer = [7, 9],
               GetSemaphore = 0, PutSemaphore = 2\<rparr>, 0x55) \<and>
   FIFO_Put 2 \<lparr>Start = 1, End = 1, NbBytes = 2, Buffer = [7, 9],
               GetSemaphore = 2, PutSemaphore = 0\<rparr> 0x41 =
     (False, \<lparr>Start = 1, End = 1, NbBytes = 2, Buffer = [7, 9],
               GetSemaphore = 2, PutSemaphore = 0\<rparr>)"
proof -
  have "NbBytes \<lparr>Start = 1, End = 1, NbBytes = 0, Buffer = [7, 9::byte],
                 GetSemaphore = 0, PutSemaphore = 2\<rparr> = 0"
    by simp
  moreover have "\<not> NbBytes \<lparr>Start = 1, End = 1, NbBytes = 2, Buffer = [7, 9::byte],
                 GetSemaphore = 2, PutSemaphore = 0\<rparr> < 2"
    by simp
  ultimately show ?thesis
    using FIFO_failure_atomic
            [of "\<lparr>Start = 1, End = 1, NbBytes = 0, Buffer = [7, 9],
                  GetSemaphore = 0, PutSemaphore = 2\<rparr>" 2 "0x55"]
          FIFO_failure_atomic
            [of "\<lparr>Start = 1, End = 1, NbBytes = 2, Buffer = [7, 9],
                  GetSemaphore = 2, PutSemaphore = 0\<rparr>" 2 _ "0x41"]
    by blast
qed

lemma fifo_run_law:
  "fifo_inv N F \<Longrightarrow> ins = outs @ fifo_contents N F \<Longrightarrow>
   fifo_run N ops (F, ins, outs) = (F', ins', outs') \<Longrightarrow>
   fifo_inv N F' \<and> ins' = outs' @ fifo_contents N F'"
proof (induction ops arbitrary: F ins outs)
  case Nil
  then show ?case by auto
next
  case (Cons op ops)
  show ?case
  proof (cases op)
    case (Try_Put b)
    obtain ok F1 where put: "FIFO_Put N F b = (ok, F1)" by (cases "FIFO_Put N F b")
    have inv1: "fifo_inv N F1" using fifo_inv_Put [OF Cons.prems(1), of b] put by simp
    have law1: "(if ok then ins @ [b] else ins) = outs @ fifo_contents N F1"
    proof (cases "NbBytes F < N")
      case True
      then have "ok" using put by (simp add: FIFO_Put_def)
      moreover have "fifo_contents N F1 = fifo_contents N F @ [b]"
        using fifo_contents_Put [OF Cons.prems(1) True, of b] put by simp
      ultimately show ?thesis using Cons.prems(2) by simp
    next
      case False
      then have "\<not> ok" "F1 = F" using put by (simp_all add: FIFO_Put_def)
      then show ?thesis using Cons.prems(2) by simp
    qed
    have "fifo_run N ops (F1, if ok then ins @ [b] else ins, outs) = (F', ins', outs')"
      using Cons.prems(3) Try_Put put by simp
    then show ?thesis using Cons.IH [OF inv1 law1] by simp
  next
    case (Try_Get d)
    obtain ok F1 d1 where get: "FIFO_Get N F d = (ok, F1, d1)" by (cases "FIFO_Get N F d")
    have inv1: "fifo_inv N F1" using fifo_inv_Get [OF Cons.prems(1), of d] get by simp
    have law1: "ins = (if ok then outs @ [d1] else outs) @ fifo_contents N F1"
    proof (cases "0 < NbBytes F")
      case True
      then have "ok" using get by (simp add: FIFO_Get_def)
      moreover have "fifo_contents N F = d1 # fifo_contents N F1"
        using fifo_contents_Get [OF Cons.prems(1) True, of d] get by simp
      ultimately show ?thesis using Cons.prems(2) by simp
    next
      case False
      then have "\<not> ok" "F1 = F" using get by (simp_all add: FIFO_Get_def)
      then show ?thesis using Cons.prems(2) by simp
    qed
    have "fifo_run N ops (F1, ins, if ok then outs @ [d1] else outs) = (F', ins', outs')"
      using Cons.prems(3) Try_Get get by simp
    then show ?thesis using Cons.IH [OF inv1 law1] by simp
  qed
qed

text \<open>
  C4. Take any sequence of \<^verbatim>\<open>FIFO_Put\<close> and \<^verbatim>\<open>FIFO_Get\<close> calls on a buffer of
  capacity \<open>N\<close>, started after \<^verbatim>\<open>FIFO_Init\<close>. In the state it reaches, the count
  is at most \<open>N\<close> (it is unsigned, so never below 0), both indices are inside the
  array and \<open>End\<close> is \<open>(Start + NbBytes) mod N\<close>. The next \<^verbatim>\<open>FIFO_Put\<close> returns
  false exactly when the count equals \<open>N\<close>; otherwise it stores the byte at \<open>End\<close>,
  moves \<open>End\<close> on by one modulo \<open>N\<close>, adds one to the count, and the byte becomes
  the newest of the waiting bytes. The
  next \<^verbatim>\<open>FIFO_Get\<close> returns false exactly when the count is 0. The bytes accepted
  so far are the bytes delivered so far followed by the bytes still waiting: bytes
  come out in the order they went in.
\<close>

theorem FIFO_try_sequence:
  assumes "0 < N" and "length (Buffer F0) = N"
    and "fifo_run N ops (FIFO_Init N F0, [], []) = (FIFO, ins, outs)"
  shows "NbBytes FIFO \<le> N \<and>
         Start FIFO < N \<and> End FIFO < N \<and> length (Buffer FIFO) = N \<and>
         End FIFO = (Start FIFO + NbBytes FIFO) mod N \<and>
         (\<forall>b. fst (FIFO_Put N FIFO b) = (NbBytes FIFO \<noteq> N)) \<and>
         (\<forall>b. NbBytes FIFO \<noteq> N \<longrightarrow>
              Buffer (snd (FIFO_Put N FIFO b)) = (Buffer FIFO)[End FIFO := b] \<and>
              End (snd (FIFO_Put N FIFO b)) = (End FIFO + 1) mod N \<and>
              NbBytes (snd (FIFO_Put N FIFO b)) = NbBytes FIFO + 1 \<and>
              fifo_contents N (snd (FIFO_Put N FIFO b)) = fifo_contents N FIFO @ [b]) \<and>
         (\<forall>d. fst (FIFO_Get N FIFO d) = (NbBytes FIFO \<noteq> 0)) \<and>
         ins = outs @ fifo_contents N FIFO"
proof -
  have inv0: "fifo_inv N (FIFO_Init N F0)"
    using assms(1,2) by (rule fifo_inv_Init)
  have law0: "[] = [] @ fifo_contents N (FIFO_Init N F0)"
    by (simp add: fifo_contents_def FIFO_Init_def)
  have both: "fifo_inv N FIFO \<and> ins = outs @ fifo_contents N FIFO"
    using fifo_run_law [OF inv0 law0 assms(3)] .
  then have inv: "fifo_inv N FIFO" and law: "ins = outs @ fifo_contents N FIFO"
    by simp_all
  have bounds: "NbBytes FIFO \<le> N" "Start FIFO < N" "length (Buffer FIFO) = N"
    "End FIFO = (Start FIFO + NbBytes FIFO) mod N"
    using inv by (simp_all add: fifo_inv_def)
  have endlt: "End FIFO < N" using bounds(4) assms(1) by simp
  have put_fail: "\<forall>b. fst (FIFO_Put N FIFO b) = (NbBytes FIFO \<noteq> N)"
    using bounds(1) by (auto simp add: FIFO_Put_def)
  have put_ok: "\<forall>b. NbBytes FIFO \<noteq> N \<longrightarrow>
              Buffer (snd (FIFO_Put N FIFO b)) = (Buffer FIFO)[End FIFO := b] \<and>
              End (snd (FIFO_Put N FIFO b)) = (End FIFO + 1) mod N \<and>
              NbBytes (snd (FIFO_Put N FIFO b)) = NbBytes FIFO + 1 \<and>
              fifo_contents N (snd (FIFO_Put N FIFO b)) = fifo_contents N FIFO @ [b]"
  proof (intro allI impI)
    fix b assume "NbBytes FIFO \<noteq> N"
    then have lt: "NbBytes FIFO < N" using bounds(1) by simp
    show "Buffer (snd (FIFO_Put N FIFO b)) = (Buffer FIFO)[End FIFO := b] \<and>
              End (snd (FIFO_Put N FIFO b)) = (End FIFO + 1) mod N \<and>
              NbBytes (snd (FIFO_Put N FIFO b)) = NbBytes FIFO + 1 \<and>
              fifo_contents N (snd (FIFO_Put N FIFO b)) = fifo_contents N FIFO @ [b]"
      using lt fifo_contents_Put [OF inv lt, of b] by (simp add: FIFO_Put_def)
  qed
  have get_fail: "\<forall>d. fst (FIFO_Get N FIFO d) = (NbBytes FIFO \<noteq> 0)"
    by (simp add: FIFO_Get_def)
  show ?thesis
    using bounds endlt put_fail put_ok get_fail law by blast
qed

theorem FIFO_try_sequence_witness:
  "fifo_run 2 [Try_Put 1, Try_Put 2, Try_Put 3, Try_Get 0, Try_Put 4, Try_Get 0, Try_Get 0, Try_Get 9]
     (FIFO_Init 2 \<lparr>Start = 0, End = 0, NbBytes = 0, Buffer = [0, 0],
                    GetSemaphore = 0, PutSemaphore = 0\<rparr>, [], []) =
     (\<lparr>Start = 1, End = 1, NbBytes = 0, Buffer = [4, 2],
       GetSemaphore = 3, PutSemaphore = 5\<rparr>, [1, 2, 4], [1, 2, 4]) \<and>
   fst (FIFO_Put 2 \<lparr>Start = 1, End = 1, NbBytes = 0, Buffer = [4, 2],
                     GetSemaphore = 3, PutSemaphore = 5\<rparr> 7) \<and>
   fifo_contents 2 (snd (FIFO_Put 2 \<lparr>Start = 1, End = 1, NbBytes = 0, Buffer = [4, 2],
                     GetSemaphore = 3, PutSemaphore = 5\<rparr> 7)) = [7] \<and>
   \<not> fst (FIFO_Get 2 \<lparr>Start = 1, End = 1, NbBytes = 0, Buffer = [4, 2],
                     GetSemaphore = 3, PutSemaphore = 5\<rparr> 9)"
proof -
  have pos: "0 < (2::nat)" by simp
  have len: "length (Buffer \<lparr>Start = 0, End = 0, NbBytes = 0, Buffer = [0, 0::byte],
                    GetSemaphore = 0, PutSemaphore = 0\<rparr>) = 2"
    by simp
  have run: "fifo_run 2 [Try_Put 1, Try_Put 2, Try_Put 3, Try_Get 0, Try_Put 4, Try_Get 0, Try_Get 0, Try_Get 9]
     (FIFO_Init 2 \<lparr>Start = 0, End = 0, NbBytes = 0, Buffer = [0, 0],
                    GetSemaphore = 0, PutSemaphore = 0\<rparr>, [], []) =
     (\<lparr>Start = 1, End = 1, NbBytes = 0, Buffer = [4, 2],
       GetSemaphore = 3, PutSemaphore = 5\<rparr>, [1, 2, 4], [1, 2, 4])"
    by code_simp
  show ?thesis
    using FIFO_try_sequence [OF pos len run] run
    by (simp add: fifo_contents_def FIFO_Put_def FIFO_Get_def)
qed

lemma fifo_exec_sum:
  "fifo_exec N F calls = Returns (F', k) \<Longrightarrow>
   GetSemaphore F' + PutSemaphore F' = GetSemaphore F + PutSemaphore F + k \<and>
   ((\<forall>c \<in> set calls. is_blocking c) \<longrightarrow> k = 0)"
proof (induction calls arbitrary: F k)
  case Nil
  then show ?case by simp
next
  case (Cons c cs)
  from Cons.prems obtain F1 k1 k2 where
    step: "do_call N F c = Returns (F1, k1)" and
    rest: "fifo_exec N F1 cs = Returns (F', k2)" and
    k: "k = k1 + k2"
    by (auto split: outcome.splits prod.splits)
  have one: "GetSemaphore F1 + PutSemaphore F1 = GetSemaphore F + PutSemaphore F + k1 \<and>
             (is_blocking c \<longrightarrow> k1 = 0)"
    using step
    by (cases c)
      (auto simp add: FIFO_Put_def FIFO_Get_def FIFO_BlockingPut_def FIFO_BlockingGet_def
        OS_SemaphoreSignal_def OS_SemaphoreWait_def
        split: if_splits outcome.splits prod.splits option.splits)
  show ?case
    using Cons.IH [OF rest] one k by auto
qed

text \<open>
  C5, as amended. Take any sequence of completed calls of the four buffer operations,
  started after \<^verbatim>\<open>FIFO_Init\<close> (items-available 0, space-available \<open>N\<close>). In the
  state it reaches, the items-available count plus the space-available count is \<open>N\<close>
  plus the number of non-blocking calls that succeeded: \<^verbatim>\<open>FIFO_Put\<close> and
  \<^verbatim>\<open>FIFO_Get\<close> signal one semaphore and wait on none. When every call of the
  sequence is a blocking one the sum is \<open>N\<close>.
\<close>

theorem FIFO_semaphore_sum:
  assumes "fifo_exec N (FIFO_Init N F0) calls = Returns (FIFO, k)"
  shows "GetSemaphore FIFO + PutSemaphore FIFO = N + k \<and>
         ((\<forall>c \<in> set calls. is_blocking c) \<longrightarrow> GetSemaphore FIFO + PutSemaphore FIFO = N)"
  using fifo_exec_sum [OF assms]
  by (auto simp add: FIFO_Init_def OS_SemaphoreCreate_def)

theorem FIFO_semaphore_sum_witness:
  "fifo_exec 4 (FIFO_Init 4 \<lparr>Start = 0, End = 0, NbBytes = 0, Buffer = [0, 0, 0, 0],
                   GetSemaphore = 0, PutSemaphore = 0\<rparr>)
     [Call_BlockingPut 0x41, Call_Put 0x42, Call_BlockingGet 0, Call_Get 0] =
     Returns (\<lparr>Start = 2, End = 2, NbBytes = 0, Buffer = [0x41, 0x42, 0, 0],
               GetSemaphore = 1, PutSemaphore = 5\<rparr>, 2) \<and>
   GetSemaphore \<lparr>Start = 2, End = 2, NbBytes = 0, Buffer = [0x41, 0x42, 0, 0::byte],
               GetSemaphore = 1, PutSemaphore = 5\<rparr> +
   PutSemaphore \<lparr>Start = 2, End = 2, NbBytes = 0, Buffer = [0x41, 0x42, 0, 0::byte],
               GetSemaphore = 1, PutSemaphore = 5\<rparr> = 4 + 2 \<and>
   fifo_exec 4 (FIFO_Init 4 \<lparr>Start = 0, End = 0, NbBytes = 0, Buffer = [0, 0, 0, 0],
                   GetSemaphore = 0, PutSemaphore = 0\<rparr>)
     [Call_BlockingPut 0x41, Call_BlockingGet 0] =
     Returns (\<lparr>Start = 1, End = 1, NbBytes = 0, Buffer = [0x41, 0, 0, 0],
               GetSemaphore = 0, PutSemaphore = 4\<rparr>, 0) \<and>
   GetSemaphore \<lparr>Start = 1, End = 1, NbBytes = 0, Buffer = [0x41, 0, 0, 0::byte],
               GetSemaphore = 0, PutSemaphore = 4\<rparr> +
   PutSemaphore \<lparr>Start = 1, End = 1, NbBytes = 0, Buffer = [0x41, 0, 0, 0::byte],
               GetSemaphore = 0, PutSemaphore = 4\<rparr> = 4"
proof -
  have mixed: "fifo_exec 4 (FIFO_Init 4 \<lparr>Start = 0, End = 0, NbBytes = 0, Buffer = [0, 0, 0, 0],
                   GetSemaphore = 0, PutSemaphore = 0\<rparr>)
     [Call_BlockingPut 0x41, Call_Put 0x42, Call_BlockingGet 0, Call_Get 0] =
     Returns (\<lparr>Start = 2, End = 2, NbBytes = 0, Buffer = [0x41, 0x42, 0, 0],
               GetSemaphore = 1, PutSemaphore = 5\<rparr>, 2)"
    by code_simp
  have blocking: "fifo_exec 4 (FIFO_Init 4 \<lparr>Start = 0, End = 0, NbBytes = 0, Buffer = [0, 0, 0, 0],
                   GetSemaphore = 0, PutSemaphore = 0\<rparr>)
     [Call_BlockingPut 0x41, Call_BlockingGet 0] =
     Returns (\<lparr>Start = 1, End = 1, NbBytes = 0, Buffer = [0x41, 0, 0, 0],
               GetSemaphore = 0, PutSemaphore = 4\<rparr>, 0)"
    by code_simp
  have all_blocking: "\<forall>c \<in> set [Call_BlockingPut 0x41, Call_BlockingGet 0]. is_blocking c"
    by simp
  show ?thesis
    using FIFO_semaphore_sum [OF mixed] FIFO_semaphore_sum [OF blocking] all_blocking
      mixed blocking
    by simp
qed

text \<open>
  The claim as stated fails after a single non-blocking call: one \<^verbatim>\<open>FIFO_Put\<close> on
  a fresh buffer of capacity 4 leaves items-available at 1 and space-available at 4.
\<close>

theorem FIFO_semaphore_sum_counterexample:
  "fifo_exec 4 (FIFO_Init 4 \<lparr>Start = 0, End = 0, NbBytes = 0, Buffer = [0, 0, 0, 0],
                   GetSemaphore = 0, PutSemaphore = 0\<rparr>) [Call_Put 0x41] =
     Returns (\<lparr>Start = 0, End = 1, NbBytes = 1, Buffer = [0x41, 0, 0, 0],
               GetSemaphore = 1, PutSemaphore = 4\<rparr>, 1) \<and>
   GetSemaphore \<lparr>Start = 0, End = 1, NbBytes = 1, Buffer = [0x41, 0, 0, 0::byte],
               GetSemaphore = 1, PutSemaphore = 4\<rparr> +
   PutSemaphore \<lparr>Start = 0, End = 1, NbBytes = 1, Buffer = [0x41, 0, 0, 0::byte],
               GetSemaphore = 1, PutSemaphore = 4\<rparr> \<noteq> 4"
  by code_simp

subsection \<open>Packet codec\<close>

lemma list5:
  "length xs = 5 \<Longrightarrow> \<exists>x0 x1 x2 x3 x4. xs = [x0, x1, x2, x3, x4]"
  by (auto simp add: length_Suc_conv eval_nat_numeral)

lemma upt_1_4: "[Suc 0..<4] = [Suc 0, 2, 3]"
  by (simp add: upt_rec)

lemma upt_1_5: "[Suc 0..<5] = [Suc 0, 2, 3, 4]"
  by (simp add: upt_rec)

lemma IsChecksumValid_window:
  "PacketBuf st = [w0, w1, w2, w3, w4] \<Longrightarrow>
   IsChecksumValid st = checksum_ok [w0, w1, w2, w3, w4]"
  by (auto simp add: IsChecksumValid_def checksum_ok_def PACKET_SIZE_def upt_1_4 xor.assoc)

lemma ShiftBuffer_window:
  "PacketBuf st = [w0, w1, w2, w3, w4] \<Longrightarrow>
   ShiftBuffer st = st\<lparr>PacketBuf := [w1, w2, w3, w4, w4], BufNbBytes := BufNbBytes st - 1\<rparr>"
  by (simp add: ShiftBuffer_def PACKET_SIZE_def upt_1_5)

lemma loop_fill:
  assumes "PacketBuf st = [x0, x1, x2, x3, x4]" "BufNbBytes st = 0"
  shows "Packet_Get_loop k st (a # b # c # d # rx) =
         Packet_Get_loop k (st\<lparr>PacketBuf := [a, b, c, d, x4], BufNbBytes := 4\<rparr>) rx"
  using assms by (simp add: ReadNextByte_def PACKET_SIZE_def)

lemma loop_full:
  assumes "PacketBuf st = [w0, w1, w2, w3, x]" "BufNbBytes st = 4"
  shows "Packet_Get_loop k st (e # rx) =
         (if checksum_ok [w0, w1, w2, w3, e]
          then Returns (st\<lparr>PacketBuf := [w0, w1, w2, w3, e],
                          BufNbBytes := 0,
                          Packet := \<lparr>Packet_Command = w0, Packet_Parameter1 = w1,
                                     Packet_Parameter2 = w2, Packet_Parameter3 = w3\<rparr>\<rparr>, rx, k)
          else Packet_Get_loop (Suc k) (st\<lparr>PacketBuf := [w1, w2, w3, e, e], BufNbBytes := 4\<rparr>) rx)"
proof -
  define st1 where "st1 = st\<lparr>PacketBuf := [w0, w1, w2, w3, e], BufNbBytes := 5\<rparr>"
  have r: "ReadNextByte st e = Some st1"
    using assms by (simp add: ReadNextByte_def PACKET_SIZE_def st1_def)
  have buf: "PacketBuf st1 = [w0, w1, w2, w3, e]" by (simp add: st1_def)
  have n: "unat (BufNbBytes st1) \<ge> PACKET_SIZE" by (simp add: st1_def PACKET_SIZE_def)
  show ?thesis
    using r n IsChecksumValid_window [OF buf] ShiftBuffer_window [OF buf]
    by (simp add: SetValuesAndResetBuffer_def st1_def)
qed

lemma Packet_Put_offer:
  assumes "0 < PutMutex"
  shows "Packet_Put sink PutMutex tx c p1 p2 p3 =
         Returns (fst (offer sink tx (wire_bytes c p1 p2 p3)) = 5, PutMutex,
                  snd (offer sink tx (wire_bytes c p1 p2 p3)))"
  using assms
  by (simp add: Packet_Put_def and_also_def wire_bytes_def OS_SemaphoreWait_def
      OS_SemaphoreSignal_def Let_def xor.assoc)

lemma offer_written:
  assumes sink: "\<forall>s b. valid s \<longrightarrow> valid (snd (sink s b)) \<and>
             written (snd (sink s b)) = (if fst (sink s b) then written s @ [b] else written s)"
    and "valid s"
  shows "valid (snd (offer sink s bs)) \<and> fst (offer sink s bs) \<le> length bs \<and>
         written (snd (offer sink s bs)) = written s @ take (fst (offer sink s bs)) bs"
  using assms(2)
proof (induction bs arbitrary: s)
  case Nil
  then show ?case by simp
next
  case (Cons b bs)
  have step: "valid (snd (sink s b))"
    "written (snd (sink s b)) = (if fst (sink s b) then written s @ [b] else written s)"
    using sink Cons.prems by simp_all
  show ?case
    using Cons.IH [OF step(1)] step by simp
qed

lemma UART_OutChar_sink:
  "\<forall>s b. fifo_inv N s \<longrightarrow> fifo_inv N (snd (UART_OutChar N s b)) \<and>
     fifo_contents N (snd (UART_OutChar N s b)) =
       (if fst (UART_OutChar N s b) then fifo_contents N s @ [b] else fifo_contents N s)"
proof (intro allI impI)
  fix s b assume inv: "fifo_inv N s"
  show "fifo_inv N (snd (UART_OutChar N s b)) \<and>
     fifo_contents N (snd (UART_OutChar N s b)) =
       (if fst (UART_OutChar N s b) then fifo_contents N s @ [b] else fifo_contents N s)"
  proof (cases "NbBytes s < N")
    case True
    then show ?thesis
      using fifo_inv_Put [OF inv, of b] fifo_contents_Put [OF inv True, of b]
      by (simp add: UART_OutChar_def FIFO_Put_def)
  next
    case False
    then show ?thesis using inv by (simp add: UART_OutChar_def FIFO_Put_def)
  qed
qed

lemma offer_UART_all:
  "fifo_inv N s \<Longrightarrow> NbBytes s + length bs \<le> N \<Longrightarrow>
   fst (offer (UART_OutChar N) s bs) = length bs"
proof (induction bs arbitrary: s)
  case Nil
  then show ?case by simp
next
  case (Cons b bs)
  have lt: "NbBytes s < N" using Cons.prems(2) by simp
  have inv1: "fifo_inv N (snd (UART_OutChar N s b))"
    using fifo_inv_Put [OF Cons.prems(1), of b] by (simp add: UART_OutChar_def)
  have nb: "NbBytes (snd (UART_OutChar N s b)) + length bs \<le> N"
    using lt Cons.prems(2) by (simp add: UART_OutChar_def FIFO_Put_def)
  have ok: "fst (UART_OutChar N s b)" using lt by (simp add: UART_OutChar_def FIFO_Put_def)
  show ?case using Cons.IH [OF inv1 nb] ok by simp
qed

text \<open>
  C2. For all bytes \<open>c\<close>, \<open>p1\<close>, \<open>p2\<close>, \<open>p3\<close>: \<^verbatim>\<open>Packet_Put\<close>, sending into an
  empty transmit FIFO with room for five bytes and with the mutex as
  \<^verbatim>\<open>Packet_Init\<close> created it, succeeds and leaves exactly the five wire bytes
  \<open>c\<close>, \<open>p1\<close>, \<open>p2\<close>, \<open>p3\<close>, \<open>c XOR p1 XOR p2 XOR p3\<close> in the FIFO, in this order;
  \<^verbatim>\<open>Packet_Get\<close>, started on an empty window and fed these five bytes, returns after
  the fifth with \<^verbatim>\<open>Packet\<close> holding \<open>c\<close>, \<open>p1\<close>, \<open>p2\<close>, \<open>p3\<close>, with no byte left
  over and no call of \<^verbatim>\<open>ShiftBuffer\<close>. The witness is the start-up packet
  \<open>0x04 0 0 0\<close> with wire bytes \<open>04 00 00 00 04\<close>.
\<close>

theorem Packet_roundtrip:
  assumes "fifo_inv N TxFIFO" and "NbBytes TxFIFO = 0" and "5 \<le> N"
    and "BufNbBytes st = 0" and "length (PacketBuf st) = PACKET_SIZE"
  shows "\<exists>TxFIFO' st'.
           Packet_Put (UART_OutChar N) (OS_SemaphoreCreate 1) TxFIFO c p1 p2 p3 =
             Returns (True, OS_SemaphoreCreate 1, TxFIFO') \<and>
           fifo_contents N TxFIFO' = [c, p1, p2, p3, c XOR p1 XOR p2 XOR p3] \<and>
           Packet_Get st (fifo_contents N TxFIFO') = Returns (st', [], 0) \<and>
           Packet st' = \<lparr>Packet_Command = c, Packet_Parameter1 = p1,
                          Packet_Parameter2 = p2, Packet_Parameter3 = p3\<rparr> \<and>
           BufNbBytes st' = 0"
proof -
  let ?w = "wire_bytes c p1 p2 p3"
  obtain k tx' where o: "offer (UART_OutChar N) TxFIFO ?w = (k, tx')"
    by (cases "offer (UART_OutChar N) TxFIFO ?w")
  have k: "k = 5"
    using offer_UART_all [OF assms(1), of ?w] assms(2,3) o by (simp add: wire_bytes_def)
  have empty: "fifo_contents N TxFIFO = []"
    using assms(2) by (simp add: fifo_contents_def)
  have contents: "fifo_contents N tx' = ?w"
    using offer_written [OF UART_OutChar_sink assms(1), of ?w] o k empty
    by (simp add: wire_bytes_def)
  have put: "Packet_Put (UART_OutChar N) (OS_SemaphoreCreate 1) TxFIFO c p1 p2 p3 =
             Returns (True, OS_SemaphoreCreate 1, tx')"
    using Packet_Put_offer [of "OS_SemaphoreCreate 1" "UART_OutChar N" TxFIFO c p1 p2 p3] o k
    by (simp add: OS_SemaphoreCreate_def)
  obtain x0 x1 x2 x3 x4 where buf: "PacketBuf st = [x0, x1, x2, x3, x4]"
    using assms(5) list5 [of "PacketBuf st"] by (auto simp add: PACKET_SIZE_def)
  let ?st4 = "st\<lparr>PacketBuf := [c, p1, p2, p3, x4], BufNbBytes := 4\<rparr>"
  have "Packet_Get st ?w =
        Packet_Get_loop 0 ?st4 [c XOR p1 XOR p2 XOR p3]"
    using loop_fill [OF buf assms(4), of 0 c p1 p2 p3 "[c XOR p1 XOR p2 XOR p3]"]
    by (simp add: Packet_Get_def wire_bytes_def)
  also have "\<dots> = Returns (?st4\<lparr>PacketBuf := [c, p1, p2, p3, c XOR p1 XOR p2 XOR p3],
                          BufNbBytes := 0,
                          Packet := \<lparr>Packet_Command = c, Packet_Parameter1 = p1,
                                     Packet_Parameter2 = p2, Packet_Parameter3 = p3\<rparr>\<rparr>, [], 0)"
    using loop_full [of ?st4 c p1 p2 p3 x4 0 "c XOR p1 XOR p2 XOR p3" "[]"]
    by (simp add: checksum_ok_def)
  finally have get: "Packet_Get st ?w = Returns (?st4\<lparr>PacketBuf := [c, p1, p2, p3, c XOR p1 XOR p2 XOR p3],
                          BufNbBytes := 0,
                          Packet := \<lparr>Packet_Command = c, Packet_Parameter1 = p1,
                                     Packet_Parameter2 = p2, Packet_Parameter3 = p3\<rparr>\<rparr>, [], 0)" .
  show ?thesis
    using put contents get by (simp add: wire_bytes_def)
qed

theorem Packet_roundtrip_witness:
  "Packet_Put (UART_OutChar 8) (OS_SemaphoreCreate 1) (FIFO_Init 8 (static_TFIFO 8)) 0x04 0 0 0 =
     Returns (True, OS_SemaphoreCreate 1,
              \<lparr>Start = 0, End = 5, NbBytes = 5, Buffer = [0x04, 0, 0, 0, 0x04, 0, 0, 0],
               GetSemaphore = 5, PutSemaphore = 8\<rparr>) \<and>
   fifo_contents 8 \<lparr>Start = 0, End = 5, NbBytes = 5, Buffer = [0x04, 0, 0, 0, 0x04, 0, 0, 0],
                    GetSemaphore = 5, PutSemaphore = 8\<rparr> = [0x04, 0x00, 0x00, 0x00, 0x04] \<and>
   Packet_Get static_packet_state [0x04, 0x00, 0x00, 0x00, 0x04] =
     Returns (\<lparr>Packet = \<lparr>Packet_Command = 0x04, Packet_Parameter1 = 0,
                          Packet_Parameter2 = 0, Packet_Parameter3 = 0\<rparr>,
               PacketBuf = [0x04, 0, 0, 0, 0x04], BufNbBytes = 0\<rparr>, [], 0)"
proof -
  have inv: "fifo_inv 8 (FIFO_Init 8 (static_TFIFO 8))"
    by (rule fifo_inv_Init) (simp_all add: static_TFIFO_def)
  have nb: "NbBytes (FIFO_Init 8 (static_TFIFO 8)) = 0" by (simp add: FIFO_Init_def)
  have cap: "5 \<le> (8::nat)" by simp
  have n0: "BufNbBytes static_packet_state = 0" by (simp add: static_packet_state_def)
  have len: "length (PacketBuf static_packet_state) = PACKET_SIZE"
    by (simp add: static_packet_state_def)
  have put: "Packet_Put (UART_OutChar 8) (OS_SemaphoreCreate 1) (FIFO_Init 8 (static_TFIFO 8)) 0x04 0 0 0 =
     Returns (True, OS_SemaphoreCreate 1,
              \<lparr>Start = 0, End = 5, NbBytes = 5, Buffer = [0x04, 0, 0, 0, 0x04, 0, 0, 0],
               GetSemaphore = 5, PutSemaphore = 8\<rparr>)"
    by code_simp
  have get: "Packet_Get static_packet_state [0x04, 0x00, 0x00, 0x00, 0x04] =
     Returns (\<lparr>Packet = \<lparr>Packet_Command = 0x04, Packet_Parameter1 = 0,
                          Packet_Parameter2 = 0, Packet_Parameter3 = 0\<rparr>,
               PacketBuf = [0x04, 0, 0, 0, 0x04], BufNbBytes = 0\<rparr>, [], 0)"
    by code_simp
  obtain T st' where
    r: "Packet_Put (UART_OutChar 8) (OS_SemaphoreCreate 1) (FIFO_Init 8 (static_TFIFO 8)) 0x04 0 0 0 =
             Returns (True, OS_SemaphoreCreate 1, T)"
       "fifo_contents 8 T = [0x04, 0, 0, 0, 0x04 XOR 0 XOR 0 XOR 0]"
    using Packet_roundtrip [OF inv nb cap n0 len, of "0x04" 0 0 0] by blast
  have "T = \<lparr>Start = 0, End = 5, NbBytes = 5, Buffer = [0x04, 0, 0, 0, 0x04, 0, 0, 0],
               GetSemaphore = 5, PutSemaphore = 8\<rparr>"
    using r(1) put by simp
  then show ?thesis using r put get by simp
qed

lemma xor_cancel_left: "(a XOR b = a XOR c) = (b = (c::byte))"
proof
  assume "a XOR b = a XOR c"
  then have "a XOR (a XOR b) = a XOR (a XOR c)" by simp
  then show "b = c" by (simp add: xor.assoc [symmetric])
qed simp

lemma corrupted_frame:
  assumes "i < 4" and "v \<noteq> wire_bytes c p1 p2 p3 ! i"
  shows "\<exists>b0 b1 b2 b3 b4. (wire_bytes c p1 p2 p3)[i := v] = [b0, b1, b2, b3, b4] \<and>
           \<not> checksum_ok [b0, b1, b2, b3, b4]"
proof -
  consider "i = 0" | "i = 1" | "i = 2" | "i = 3" using assms(1) by linarith
  then show ?thesis
  proof cases
    case 1
    then have "v \<noteq> c" using assms(2) by (simp add: wire_bytes_def)
    then have "\<not> checksum_ok [v, p1, p2, p3, c XOR p1 XOR p2 XOR p3]"
      by (simp add: checksum_ok_def) (metis word_bw_comms(3) xor_cancel_left)
    then show ?thesis using 1 by (simp add: wire_bytes_def)
  next
    case 2
    then have "v \<noteq> p1" using assms(2) by (simp add: wire_bytes_def)
    then have "\<not> checksum_ok [c, v, p2, p3, c XOR p1 XOR p2 XOR p3]"
      by (simp add: checksum_ok_def xor_cancel_left) (metis word_bw_comms(3) xor_cancel_left)
    then show ?thesis using 2 by (simp add: wire_bytes_def)
  next
    case 3
    then have "v \<noteq> p2" using assms(2) by (simp add: wire_bytes_def)
    then have "\<not> checksum_ok [c, p1, v, p3, c XOR p1 XOR p2 XOR p3]"
      by (simp add: checksum_ok_def xor_cancel_left) (metis word_bw_comms(3) xor_cancel_left)
    then show ?thesis using 3 by (simp add: wire_bytes_def)
  next
    case 4
    then have "v \<noteq> p3" using assms(2) by (simp add: wire_bytes_def)
    then have "\<not> checksum_ok [c, p1, p2, v, c XOR p1 XOR p2 XOR p3]"
      by (simp add: checksum_ok_def xor_cancel_left)
    then show ?thesis using 4 by (simp add: wire_bytes_def)
  qed
qed

lemma loop_full_upd:
  "Packet_Get_loop k (st\<lparr>PacketBuf := [w0, w1, w2, w3, x], BufNbBytes := 4\<rparr>) (e # rx) =
     (if checksum_ok [w0, w1, w2, w3, e]
      then Returns (st\<lparr>PacketBuf := [w0, w1, w2, w3, e],
                      BufNbBytes := 0,
                      Packet := \<lparr>Packet_Command = w0, Packet_Parameter1 = w1,
                                 Packet_Parameter2 = w2, Packet_Parameter3 = w3\<rparr>\<rparr>, rx, k)
      else Packet_Get_loop (Suc k) (st\<lparr>PacketBuf := [w1, w2, w3, e, e], BufNbBytes := 4\<rparr>) rx)"
  using loop_full [of "st\<lparr>PacketBuf := [w0, w1, w2, w3, x], BufNbBytes := 4\<rparr>" w0 w1 w2 w3 x k e rx]
  by simp

lemma resync10:
  assumes "PacketBuf st0 = [x0, x1, x2, x3, x4]" and "BufNbBytes st0 = 0"
    and "\<not> checksum_ok [s0, s1, s2, s3, s4]"
    and "\<not> checksum_ok [s1, s2, s3, s4, s5]"
    and "\<not> checksum_ok [s2, s3, s4, s5, s6]"
    and "\<not> checksum_ok [s3, s4, s5, s6, s7]"
    and "\<not> checksum_ok [s4, s5, s6, s7, s8]"
    and "checksum_ok [s5, s6, s7, s8, s9]"
  shows "Packet_Get st0 ([s0, s1, s2, s3, s4, s5, s6, s7, s8, s9] @ rest) =
         Returns (st0\<lparr>PacketBuf := [s5, s6, s7, s8, s9], BufNbBytes := 0,
                      Packet := \<lparr>Packet_Command = s5, Packet_Parameter1 = s6,
                                 Packet_Parameter2 = s7, Packet_Parameter3 = s8\<rparr>\<rparr>, rest, 5)"
  using assms(3-8) loop_fill [OF assms(1,2)]
  by (simp add: Packet_Get_def loop_full_upd eval_nat_numeral del: Packet_Get_loop.simps)

text \<open>
  C3, as amended. First half, as claimed: when the byte just read fills the window
  and the checksum test fails, the loop calls \<^verbatim>\<open>ShiftBuffer\<close>, which drops the
  first byte, moves the other four one place to the left and lowers the length to
  4, leaves \<^verbatim>\<open>Packet\<close> as it was, and goes on with the next byte. Second half: a
  frame with one of its four payload bytes altered, followed by a valid frame, makes
  the decoder return only after the tenth byte, after five shifts, with \<^verbatim>\<open>Packet\<close>
  holding the second frame, provided that none of the four windows that straddle
  the two frames passes the checksum test.
\<close>

theorem Packet_Get_resync:
  "(ReadNextByte st data = Some st1 \<and> unat (BufNbBytes st1) = PACKET_SIZE \<and>
    length (PacketBuf st1) = PACKET_SIZE \<and> \<not> IsChecksumValid st1 \<longrightarrow>
      Packet_Get_loop k st (data # rx) = Packet_Get_loop (Suc k) (ShiftBuffer st1) rx \<and>
      take 4 (PacketBuf (ShiftBuffer st1)) = drop 1 (PacketBuf st1) \<and>
      length (PacketBuf (ShiftBuffer st1)) = PACKET_SIZE \<and>
      unat (BufNbBytes (ShiftBuffer st1)) = 4 \<and>
      Packet (ShiftBuffer st1) = Packet st) \<and>
   (BufNbBytes st0 = 0 \<and> length (PacketBuf st0) = PACKET_SIZE \<and>
    i < 4 \<and> v \<noteq> wire_bytes c p1 p2 p3 ! i \<and>
    stream = (wire_bytes c p1 p2 p3)[i := v] @ wire_bytes d q1 q2 q3 \<and>
    (\<forall>j \<in> {1..4}. \<not> checksum_ok (take 5 (drop j stream))) \<longrightarrow>
      (\<exists>st'. Packet_Get st0 (stream @ rest) = Returns (st', rest, 5) \<and>
             Packet st' = \<lparr>Packet_Command = d, Packet_Parameter1 = q1,
                            Packet_Parameter2 = q2, Packet_Parameter3 = q3\<rparr> \<and>
             BufNbBytes st' = 0))"
proof (intro conjI impI)
  assume a: "ReadNextByte st data = Some st1 \<and> unat (BufNbBytes st1) = PACKET_SIZE \<and>
    length (PacketBuf st1) = PACKET_SIZE \<and> \<not> IsChecksumValid st1"
  obtain w0 w1 w2 w3 w4 where buf: "PacketBuf st1 = [w0, w1, w2, w3, w4]"
    using a list5 [of "PacketBuf st1"] by (auto simp add: PACKET_SIZE_def)
  have n: "BufNbBytes st1 = 5"
    using a by (simp add: PACKET_SIZE_def word_unat_eq_iff)
  have pk: "Packet st1 = Packet st"
    using a by (auto simp add: ReadNextByte_def split: if_splits)
  show "Packet_Get_loop k st (data # rx) = Packet_Get_loop (Suc k) (ShiftBuffer st1) rx"
    using a by simp
  show "take 4 (PacketBuf (ShiftBuffer st1)) = drop 1 (PacketBuf st1)"
    using ShiftBuffer_window [OF buf] buf by simp
  show "length (PacketBuf (ShiftBuffer st1)) = PACKET_SIZE"
    using ShiftBuffer_window [OF buf] by (simp add: PACKET_SIZE_def)
  show "unat (BufNbBytes (ShiftBuffer st1)) = 4"
    using ShiftBuffer_window [OF buf] n by simp
  show "Packet (ShiftBuffer st1) = Packet st"
    using ShiftBuffer_window [OF buf] pk by simp
next
  assume b: "BufNbBytes st0 = 0 \<and> length (PacketBuf st0) = PACKET_SIZE \<and>
    i < 4 \<and> v \<noteq> wire_bytes c p1 p2 p3 ! i \<and>
    stream = (wire_bytes c p1 p2 p3)[i := v] @ wire_bytes d q1 q2 q3 \<and>
    (\<forall>j \<in> {1..4}. \<not> checksum_ok (take 5 (drop j stream)))"
  obtain x0 x1 x2 x3 x4 where buf: "PacketBuf st0 = [x0, x1, x2, x3, x4]"
    using b list5 [of "PacketBuf st0"] by (auto simp add: PACKET_SIZE_def)
  obtain b0 b1 b2 b3 b4 where
    bad: "(wire_bytes c p1 p2 p3)[i := v] = [b0, b1, b2, b3, b4]" and
    w0: "\<not> checksum_ok [b0, b1, b2, b3, b4]"
    using b corrupted_frame [of i v c p1 p2 p3] by auto
  let ?e = "d XOR q1 XOR q2 XOR q3"
  have stream: "stream = [b0, b1, b2, b3, b4, d, q1, q2, q3, ?e]"
    using b bad by (simp add: wire_bytes_def)
  have ball: "\<forall>j \<in> {1..4}. \<not> checksum_ok (take 5 (drop j stream))"
    using b by blast
  have "\<not> checksum_ok (take 5 (drop 1 stream))" "\<not> checksum_ok (take 5 (drop 2 stream))"
    "\<not> checksum_ok (take 5 (drop 3 stream))" "\<not> checksum_ok (take 5 (drop 4 stream))"
    using ball by auto
  then have w: "\<not> checksum_ok [b1, b2, b3, b4, d]" "\<not> checksum_ok [b2, b3, b4, d, q1]"
    "\<not> checksum_ok [b3, b4, d, q1, q2]" "\<not> checksum_ok [b4, d, q1, q2, q3]"
    by (simp_all add: stream)
  have w5: "checksum_ok [d, q1, q2, q3, ?e]" by (simp add: checksum_ok_def)
  have n0: "BufNbBytes st0 = 0" using b by simp
  show "\<exists>st'. Packet_Get st0 (stream @ rest) = Returns (st', rest, 5) \<and>
             Packet st' = \<lparr>Packet_Command = d, Packet_Parameter1 = q1,
                            Packet_Parameter2 = q2, Packet_Parameter3 = q3\<rparr> \<and>
             BufNbBytes st' = 0"
    using resync10 [OF buf n0 w0 w w5, of rest] by (simp add: stream)
qed

theorem Packet_Get_resync_witness:
  "Packet_Get_loop 0 \<lparr>Packet = Packet static_packet_state, PacketBuf = [0x05, 0, 0, 0, 0],
                        BufNbBytes = 4\<rparr> [0x04, 0x04] =
     Packet_Get_loop 1 \<lparr>Packet = Packet static_packet_state, PacketBuf = [0, 0, 0, 0x04, 0x04],
                          BufNbBytes = 4\<rparr> [0x04] \<and>
   Packet_Get static_packet_state
       ([0x0B, 0x01, 0x6F, 0x12, 0x76] @ [0x0D, 0x01, 0x01, 0x00, 0x0D]) =
     Returns (\<lparr>Packet = \<lparr>Packet_Command = 0x0D, Packet_Parameter1 = 0x01,
                          Packet_Parameter2 = 0x01, Packet_Parameter3 = 0x00\<rparr>,
               PacketBuf = [0x0D, 0x01, 0x01, 0x00, 0x0D], BufNbBytes = 0\<rparr>, [], 5)"
proof -
  let ?st = "\<lparr>Packet = Packet static_packet_state, PacketBuf = [0x05, 0, 0, 0, 0],
              BufNbBytes = 4\<rparr>"
  let ?st1 = "\<lparr>Packet = Packet static_packet_state, PacketBuf = [0x05, 0, 0, 0, 0x04],
               BufNbBytes = 5\<rparr>"
  let ?stream = "[0x0B, 0x01, 0x6F, 0x12, 0x76, 0x0D, 0x01, 0x01, 0x00, 0x0D] :: byte list"
  have h1: "ReadNextByte ?st 0x04 = Some ?st1 \<and> unat (BufNbBytes ?st1) = PACKET_SIZE \<and>
            length (PacketBuf ?st1) = PACKET_SIZE \<and> \<not> IsChecksumValid ?st1"
    by code_simp
  have sh: "ShiftBuffer ?st1 = \<lparr>Packet = Packet static_packet_state,
              PacketBuf = [0, 0, 0, 0x04, 0x04], BufNbBytes = 4\<rparr>"
    by code_simp
  have h2: "BufNbBytes static_packet_state = 0 \<and>
            length (PacketBuf static_packet_state) = PACKET_SIZE \<and>
            (2::nat) < 4 \<and> 0x6F \<noteq> wire_bytes 0x0B 0x01 0x6E 0x12 ! 2 \<and>
            ?stream = (wire_bytes 0x0B 0x01 0x6E 0x12)[2 := 0x6F] @ wire_bytes 0x0D 0x01 0x01 0x00 \<and>
            (\<forall>j \<in> {1..4}. \<not> checksum_ok (take 5 (drop j ?stream)))"
    by code_simp
  have ev: "Packet_Get static_packet_state ?stream =
     Returns (\<lparr>Packet = \<lparr>Packet_Command = 0x0D, Packet_Parameter1 = 0x01,
                          Packet_Parameter2 = 0x01, Packet_Parameter3 = 0x00\<rparr>,
               PacketBuf = [0x0D, 0x01, 0x01, 0x00, 0x0D], BufNbBytes = 0\<rparr>, [], 5)"
    by code_simp
  from Packet_Get_resync [where st = ?st and data = "0x04" and ?st1.0 = ?st1 and k = 0
      and rx = "[0x04]" and ?st0.0 = static_packet_state and i = 2 and v = "0x6F"
      and c = "0x0B" and ?p1.0 = "0x01" and ?p2.0 = "0x6E" and ?p3.0 = "0x12"
      and stream = ?stream and d = "0x0D" and ?q1.0 = "0x01" and ?q2.0 = "0x01"
      and ?q3.0 = "0x00" and rest = "[]"] h1 h2
  have "Packet_Get_loop 0 ?st [0x04, 0x04] = Packet_Get_loop (Suc 0) (ShiftBuffer ?st1) [0x04]"
    and "\<exists>st'. Packet_Get static_packet_state (?stream @ []) = Returns (st', [], 5)"
    by blast+
  then show ?thesis using sh ev by simp
qed

text \<open>
  Without the proviso the claim fails. The start-up frame \<open>04 00 00 00 04\<close> with its
  command byte altered to \<open>05\<close>, followed by the same frame intact: the window
  \<open>00 00 00 04 04\<close>, one byte further, passes the checksum test, and the decoder
  returns the packet \<open>00 00 00 04\<close> after one shift, with four bytes of the second
  frame unread.
\<close>

theorem Packet_Get_resync_counterexample:
  "Packet_Get static_packet_state ([0x05, 0x00, 0x00, 0x00, 0x04] @ [0x04, 0x00, 0x00, 0x00, 0x04]) =
     Returns (\<lparr>Packet = \<lparr>Packet_Command = 0x00, Packet_Parameter1 = 0x00,
                          Packet_Parameter2 = 0x00, Packet_Parameter3 = 0x04\<rparr>,
               PacketBuf = [0x00, 0x00, 0x00, 0x04, 0x04], BufNbBytes = 0\<rparr>,
              [0x00, 0x00, 0x00, 0x04], 1)"
  by code_simp

text \<open>
  C8. Take any byte sink that appends a byte it accepts to what it holds and keeps
  what it holds when it rejects a byte (on the states \<open>valid\<close> singles out), and a
  free mutex. \<^verbatim>\<open>Packet_Put\<close> offers the five wire bytes in order and stops at the
  first rejection: with \<open>k\<close> the number of bytes accepted before it, the call returns
  true exactly when \<open>k = 5\<close>, releases the mutex, and the sink then holds what it held
  before followed by the first \<open>k\<close> wire bytes. Nothing is taken back.
\<close>

theorem Packet_Put_partial:
  assumes "0 < PutMutex" and "valid tx"
    and "\<forall>s b. valid s \<longrightarrow> valid (snd (sink s b)) \<and>
             written (snd (sink s b)) = (if fst (sink s b) then written s @ [b] else written s)"
  shows "\<exists>k tx'. offer sink tx (wire_bytes c p1 p2 p3) = (k, tx') \<and> k \<le> 5 \<and>
           Packet_Put sink PutMutex tx c p1 p2 p3 = Returns (k = 5, PutMutex, tx') \<and>
           written tx' = written tx @ take k (wire_bytes c p1 p2 p3)"
proof -
  obtain k tx' where o: "offer sink tx (wire_bytes c p1 p2 p3) = (k, tx')"
    by (cases "offer sink tx (wire_bytes c p1 p2 p3)")
  have "k \<le> 5" "written tx' = written tx @ take k (wire_bytes c p1 p2 p3)"
    using offer_written [OF assms(3) assms(2), of "wire_bytes c p1 p2 p3"] o
    by (simp_all add: wire_bytes_def)
  moreover have "Packet_Put sink PutMutex tx c p1 p2 p3 = Returns (k = 5, PutMutex, tx')"
    using Packet_Put_offer [OF assms(1), of sink tx c p1 p2 p3] o by simp
  ultimately show ?thesis using o by blast
qed

theorem Packet_Put_partial_witness:
  "Packet_Put (UART_OutChar 4) 1 (FIFO_Init 4 (static_TFIFO 4)) 0x04 0 0 0 =
     Returns (False, 1, \<lparr>Start = 0, End = 0, NbBytes = 4, Buffer = [0x04, 0, 0, 0],
                         GetSemaphore = 4, PutSemaphore = 4\<rparr>) \<and>
   fifo_contents 4 \<lparr>Start = 0, End = 0, NbBytes = 4, Buffer = [0x04, 0, 0, 0],
                    GetSemaphore = 4, PutSemaphore = 4\<rparr> =
     fifo_contents 4 (FIFO_Init 4 (static_TFIFO 4)) @ take 4 (wire_bytes 0x04 0 0 0)"
proof -
  have m: "0 < (1::nat)" by simp
  have inv: "fifo_inv 4 (FIFO_Init 4 (static_TFIFO 4))"
    by (rule fifo_inv_Init) (simp_all add: static_TFIFO_def)
  have o: "offer (UART_OutChar 4) (FIFO_Init 4 (static_TFIFO 4)) (wire_bytes 0x04 0 0 0) =
           (4, \<lparr>Start = 0, End = 0, NbBytes = 4, Buffer = [0x04, 0, 0, 0],
                GetSemaphore = 4, PutSemaphore = 4\<rparr>)"
    by code_simp
  from Packet_Put_partial [OF m, of "fifo_inv 4" "FIFO_Init 4 (static_TFIFO 4)" "UART_OutChar 4"
      "fifo_contents 4" "0x04" 0 0 0, OF inv UART_OutChar_sink] o
  show ?thesis by auto
qed

subsection \<open>Acknowledgement\<close>

lemma bit_128_int: "bit (128::int) n \<longleftrightarrow> n = 7"
proof -
  have e: "(128::int) = 2 ^ 7" by simp
  show ?thesis by (simp only: e bit_exp_iff) simp
qed

lemma bit_ack: "bit PACKET_ACK_MASK n = (n = 7)"
  unfolding PACKET_ACK_MASK_def
  by (auto simp add: bit_128_int)

lemma ack_requested: "(c AND PACKET_ACK_MASK \<noteq> 0) = bit (c::byte) 7"
proof -
  have "PACKET_ACK_MASK = 2 ^ 7" by (simp add: PACKET_ACK_MASK_def)
  then show ?thesis
    using and_exp_eq_0_iff_not_bit [of c 7] by (simp only: possible_bit_word) simp
qed

lemma acknowledgeMask_bits:
  "bit (c AND (ucast (push_bit 7 (of_bool wasSuccess :: 32 word)
                       OR NOT (ucast PACKET_ACK_MASK :: 32 word)) :: byte)) i
   = (bit c i \<and> (i = 7 \<longrightarrow> wasSuccess))"
  by (auto simp add: bit_simps bit_ack dest: bit_imp_le_length)

text \<open>
  C9. When bit 7 of the received command is set (and the mutex is free),
  \<^verbatim>\<open>SendAcknowledgeIfRequired\<close> offers to the sink the wire bytes of a packet whose
  three parameters are the received ones and whose command has bit 7 equal to
  \<open>wasSuccess\<close> and bits 0 to 6 equal to those of the received command. When bit 7 is
  clear it sends nothing: sink and mutex come back unchanged.
\<close>

theorem SendAcknowledge_echo:
  "(bit (Packet_Command pkt) 7 \<and> 0 < PutMutex \<longrightarrow>
      (\<exists>cmd. bit cmd 7 = wasSuccess \<and> (\<forall>i<7. bit cmd i = bit (Packet_Command pkt) i) \<and>
         SendAcknowledgeIfRequired sink PutMutex tx pkt wasSuccess =
           Returns (PutMutex,
             snd (offer sink tx (wire_bytes cmd (Packet_Parameter1 pkt)
                                   (Packet_Parameter2 pkt) (Packet_Parameter3 pkt)))))) \<and>
   (\<not> bit (Packet_Command pkt) 7 \<longrightarrow>
      SendAcknowledgeIfRequired sink PutMutex tx pkt wasSuccess = Returns (PutMutex, tx))"
proof (intro conjI impI)
  assume a: "bit (Packet_Command pkt) 7 \<and> 0 < PutMutex"
  let ?cmd = "Packet_Command pkt AND (ucast (push_bit 7 (of_bool wasSuccess :: 32 word)
                       OR NOT (ucast PACKET_ACK_MASK :: 32 word)) :: byte)"
  have b7: "bit ?cmd 7 = wasSuccess"
    using a by (simp add: acknowledgeMask_bits)
  have low: "\<forall>i<7. bit ?cmd i = bit (Packet_Command pkt) i"
    by (simp add: acknowledgeMask_bits)
  have m: "0 < PutMutex" using a by simp
  have "SendAcknowledgeIfRequired sink PutMutex tx pkt wasSuccess =
           Returns (PutMutex,
             snd (offer sink tx (wire_bytes ?cmd (Packet_Parameter1 pkt)
                                   (Packet_Parameter2 pkt) (Packet_Parameter3 pkt))))"
    using a Packet_Put_offer [OF m, of sink tx ?cmd]
    by (simp add: SendAcknowledgeIfRequired_def ack_requested)
  then show "\<exists>cmd. bit cmd 7 = wasSuccess \<and> (\<forall>i<7. bit cmd i = bit (Packet_Command pkt) i) \<and>
         SendAcknowledgeIfRequired sink PutMutex tx pkt wasSuccess =
           Returns (PutMutex,
             snd (offer sink tx (wire_bytes cmd (Packet_Parameter1 pkt)
                                   (Packet_Parameter2 pkt) (Packet_Parameter3 pkt))))"
    using b7 low by blast
next
  assume "\<not> bit (Packet_Command pkt) 7"
  then show "SendAcknowledgeIfRequired sink PutMutex tx pkt wasSuccess = Returns (PutMutex, tx)"
    by (simp add: SendAcknowledgeIfRequired_def ack_requested)
qed

theorem SendAcknowledge_echo_witness:
  "SendAcknowledgeIfRequired (UART_OutChar 8) 1 (FIFO_Init 8 (static_TFIFO 8))
     \<lparr>Packet_Command = 0x8B, Packet_Parameter1 = 0x01, Packet_Parameter2 = 0x6E,
      Packet_Parameter3 = 0x12\<rparr> False =
     Returns (1, \<lparr>Start = 0, End = 5, NbBytes = 5,
                  Buffer = [0x0B, 0x01, 0x6E, 0x12, 0x76, 0, 0, 0],
                  GetSemaphore = 5, PutSemaphore = 8\<rparr>) \<and>
   SendAcknowledgeIfRequired (UART_OutChar 8) 1 (FIFO_Init 8 (static_TFIFO 8))
     \<lparr>Packet_Command = 0x0B, Packet_Parameter1 = 0x01, Packet_Parameter2 = 0x6E,
      Packet_Parameter3 = 0x12\<rparr> True =
     Returns (1, FIFO_Init 8 (static_TFIFO 8))"
proof -
  let ?ack = "\<lparr>Packet_Command = 0x8B, Packet_Parameter1 = 0x01, Packet_Parameter2 = 0x6E,
      Packet_Parameter3 = 0x12\<rparr>"
  let ?plain = "\<lparr>Packet_Command = 0x0B, Packet_Parameter1 = 0x01, Packet_Parameter2 = 0x6E,
      Packet_Parameter3 = 0x12\<rparr>"
  have h1: "bit (Packet_Command ?ack) 7 \<and> 0 < (1::nat)" by simp
  have h2: "\<not> bit (Packet_Command ?plain) 7" by simp
  have ev: "SendAcknowledgeIfRequired (UART_OutChar 8) 1 (FIFO_Init 8 (static_TFIFO 8)) ?ack False =
     Returns (1, \<lparr>Start = 0, End = 5, NbBytes = 5,
                  Buffer = [0x0B, 0x01, 0x6E, 0x12, 0x76, 0, 0, 0],
                  GetSemaphore = 5, PutSemaphore = 8\<rparr>)"
    by code_simp
  from SendAcknowledge_echo [of ?ack 1 False "UART_OutChar 8" "FIFO_Init 8 (static_TFIFO 8)"] h1
  have nak: "\<exists>cmd. bit cmd 7 = False \<and>
      SendAcknowledgeIfRequired (UART_OutChar 8) 1 (FIFO_Init 8 (static_TFIFO 8)) ?ack False =
        Returns (1, snd (offer (UART_OutChar 8) (FIFO_Init 8 (static_TFIFO 8))
                          (wire_bytes cmd 0x01 0x6E 0x12)))"
    by auto
  from SendAcknowledge_echo [of ?plain 1 True "UART_OutChar 8" "FIFO_Init 8 (static_TFIFO 8)"] h2
  have "SendAcknowledgeIfRequired (UART_OutChar 8) 1 (FIFO_Init 8 (static_TFIFO 8)) ?plain True =
     Returns (1, FIFO_Init 8 (static_TFIFO 8))"
    by blast
  then show ?thesis using ev nak by simp
qed

subsection \<open>Flash allocation\<close>

lemma window_free_mask:
  "window_free bitmap n off = (push_bit off (mask n) AND bitmap = 0)"
proof
  assume wf: "window_free bitmap n off"
  show "push_bit off (mask n) AND bitmap = 0"
  proof (rule bit_eqI)
    fix i
    show "bit (push_bit off (mask n) AND bitmap) i = bit (0::byte) i"
      using wf by (auto simp add: window_free_def bit_simps)
  qed
next
  assume z: "push_bit off (mask n) AND bitmap = 0"
  show "window_free bitmap n off"
    unfolding window_free_def
  proof
    fix i assume i: "i \<in> {off..<off + n}"
    show "\<not> bit bitmap i"
    proof
      assume b: "bit bitmap i"
      then have "i < 8" using bit_imp_le_length [of bitmap i] by simp
      then have "bit (push_bit off (mask n) AND bitmap) i"
        using i b by (auto simp add: bit_simps)
      then show False using z by simp
    qed
  qed
qed

lemma AllocateVar_loop_find:
  assumes n: "n = 1 \<or> n = 2 \<or> n = 4"
  shows "k \<le> 8 div n \<Longrightarrow>
     AllocateVar_loop a (of_nat n) (of_nat (k * n)) (push_bit (k * n) (mask n)) =
     Some (map_option (\<lambda>off. (of_nat off, push_bit off (mask n)))
            (find (\<lambda>off. push_bit off (mask n) AND a = 0) (map (\<lambda>j. j * n) [k..<8 div n])))"
proof (induction "8 div n - k" arbitrary: k)
  case 0
  then have k: "k = 8 div n" by simp
  then have "k * n = 8" using n by auto
  then have "\<not> (of_nat (k * n) :: byte) < 8" by (simp del: of_nat_mult)
  then show ?case
    using k by (subst AllocateVar_loop.simps) simp
next
  case (Suc d)
  then have k: "k < 8 div n" by simp
  then have lt: "k * n < 8" using n by auto
  then have off: "(of_nat (k * n) :: byte) < 8"
    by (simp add: word_less_nat_alt unat_of_nat del: of_nat_mult)
  have un: "unat (of_nat n :: byte) = n" using n by auto
  have next_off: "(of_nat (k * n) :: byte) + of_nat n = of_nat (Suc k * n)"
    by (simp add: algebra_simps)
  have next_mask: "push_bit (unat (of_nat n :: byte)) (push_bit (k * n) (mask n) :: byte) =
                   push_bit (Suc k * n) (mask n)"
    by (simp add: un push_bit_push_bit add.commute)
  have IH: "AllocateVar_loop a (of_nat n) (of_nat (Suc k * n)) (push_bit (Suc k * n) (mask n)) =
     Some (map_option (\<lambda>off. (of_nat off, push_bit off (mask n)))
            (find (\<lambda>off. push_bit off (mask n) AND a = 0) (map (\<lambda>j. j * n) [Suc k..<8 div n])))"
    using Suc.hyps(1) [of "Suc k"] Suc.hyps(2) k by simp
  have list: "[k..<8 div n] = k # [Suc k..<8 div n]" using k by (simp add: upt_conv_Cons)
  show ?case
    apply (subst AllocateVar_loop.simps)
    apply (simp only: off if_True next_off next_mask IH list)
    apply simp
    done
qed


lemma first_fit_find:
  "first_fit a n = find (\<lambda>off. push_bit off (mask n) AND a = 0) (map (\<lambda>j. j * n) [0..<8 div n])"
proof -
  have "window_free a n = (\<lambda>off. push_bit off (mask n) AND a = 0)"
    by (rule ext) (rule window_free_mask)
  then show ?thesis by (simp add: first_fit_def)
qed

lemma first_fit_bound:
  assumes "first_fit a n = Some off" and "n = 1 \<or> n = 2 \<or> n = 4"
  shows "off < 8"
proof -
  have "off \<in> set (map (\<lambda>j. j * n) [0..<8 div n])"
    using assms(1) unfolding first_fit_def find_Some_iff by (metis nth_mem)
  then obtain j where "j < 8 div n" "off = j * n" by auto
  then show ?thesis using assms(2) by auto
qed

lemma Flash_AllocateVar_first_fit:
  assumes "sz = 1 \<or> sz = 2 \<or> sz = 4"
  shows "Flash_AllocateVar S a sz =
         Some (case first_fit a (unat sz) of
                 None \<Rightarrow> (None, a)
               | Some off \<Rightarrow> (Some (S + of_nat off), mark_window a (unat sz) off))"
proof -
  define n where "n = unat sz"
  have n: "n = 1 \<or> n = 2 \<or> n = 4" using assms by (auto simp add: n_def)
  have sz: "sz = of_nat n" by (simp add: n_def)
  have unfold: "Flash_AllocateVar S a sz =
     (case AllocateVar_loop a sz 0 (mask n) of
           None \<Rightarrow> None
         | Some None \<Rightarrow> Some (None, a)
         | Some (Some (offset, allocMask)) \<Rightarrow>
             Some (Some (S + ucast offset), a OR allocMask))"
    using assms by (auto simp add: Flash_AllocateVar_def n_def mask_eq_exp_minus_1 push_bit_of_1)
  have loop: "AllocateVar_loop a sz 0 (mask n) =
     Some (map_option (\<lambda>off. (of_nat off, push_bit off (mask n))) (first_fit a n))"
    using AllocateVar_loop_find [OF n, of 0 a] by (simp add: sz first_fit_find)
  show ?thesis
  proof (cases "first_fit a n")
    case None
    then show ?thesis
      using loop by (simp add: unfold n_def [symmetric])
  next
    case (Some off)
    then have "off < 8" using first_fit_bound n by blast
    then have "(ucast (of_nat off :: byte) :: 32 word) = of_nat off"
      by (simp add: take_bit_nat_eq_self unsigned_of_nat)
    then show ?thesis
      using loop Some
      by (simp add: unfold n_def [symmetric] mark_window_def)
  qed
qed

lemma upt4: "[0..<4] = [0, 1, 2, 3]" by (simp add: upt_rec)
lemma upt2: "[0..<2] = [0, 1]" by (simp add: upt_rec)

text \<open>
  C6. \<^verbatim>\<open>Flash_AllocateVar\<close> returns for every bitmap and every size. A size other
  than 1, 2 or 4 fails and leaves the bitmap alone. For a size of 1, 2 or 4 the
  call takes the first of the offsets \<open>0\<close>, \<open>sz\<close>, \<open>2 * sz\<close>, ... below 8 whose
  window of \<open>sz\<close> bits has no bit set in the bitmap, sets these bits and gives the
  address \<^verbatim>\<open>FLASH_DATA_START + offset\<close>; when there is no such offset it fails and
  leaves the bitmap alone. The result is a function of bitmap and size only. From
  the empty bitmap, sizes 2, 2 and 4 get offsets 0, 2 and 4 and fill the bitmap;
  a further request for 2 bytes fails.
\<close>

theorem Flash_AllocateVar_spec:
  "Flash_AllocateVar S availableBytes sz =
     Some (if sz = 1 \<or> sz = 2 \<or> sz = 4 then
             (case first_fit availableBytes (unat sz) of
                None \<Rightarrow> (None, availableBytes)
              | Some offset \<Rightarrow>
                  (Some (S + of_nat offset), mark_window availableBytes (unat sz) offset))
           else (None, availableBytes)) \<and>
   Flash_AllocateVar S 0x00 2 = Some (Some S, 0x03) \<and>
   Flash_AllocateVar S 0x03 2 = Some (Some (S + 2), 0x0F) \<and>
   Flash_AllocateVar S 0x0F 4 = Some (Some (S + 4), 0xFF) \<and>
   Flash_AllocateVar S 0xFF 2 = Some (None, 0xFF)"
proof (intro conjI)
  show "Flash_AllocateVar S availableBytes sz =
     Some (if sz = 1 \<or> sz = 2 \<or> sz = 4 then
             (case first_fit availableBytes (unat sz) of
                None \<Rightarrow> (None, availableBytes)
              | Some offset \<Rightarrow>
                  (Some (S + of_nat offset), mark_window availableBytes (unat sz) offset))
           else (None, availableBytes))"
  proof (cases "sz = 1 \<or> sz = 2 \<or> sz = 4")
    case True
    then show ?thesis using Flash_AllocateVar_first_fit [OF True] by simp
  next
    case False
    then show ?thesis by (simp add: Flash_AllocateVar_def)
  qed
  have f0: "first_fit 0x00 2 = Some 0"
    by (simp add: first_fit_find upt4)
  have f1: "first_fit 0x03 2 = Some 2"
    by (simp add: first_fit_find upt4 mask_eq_exp_minus_1)
  have f2: "first_fit 0x0F 4 = Some 4"
    by (simp add: first_fit_find upt2 mask_eq_exp_minus_1)
  have f3: "first_fit 0xFF 2 = None"
    by (simp add: first_fit_find upt4 mask_eq_exp_minus_1)
  show "Flash_AllocateVar S 0x00 2 = Some (Some S, 0x03)"
    using Flash_AllocateVar_first_fit [of 2 S 0] f0 by (simp add: mark_window_def mask_eq_exp_minus_1)
  show "Flash_AllocateVar S 0x03 2 = Some (Some (S + 2), 0x0F)"
    using Flash_AllocateVar_first_fit [of 2 S 3] f1 by (simp add: mark_window_def mask_eq_exp_minus_1)
  show "Flash_AllocateVar S 0x0F 4 = Some (Some (S + 4), 0xFF)"
    using Flash_AllocateVar_first_fit [of 4 S "0xF"] f2 by (simp add: mark_window_def mask_eq_exp_minus_1)
  show "Flash_AllocateVar S 0xFF 2 = Some (None, 0xFF)"
    using Flash_AllocateVar_first_fit [of 2 S "0xFF"] f3 by simp
qed

theorem Flash_AllocateVar_spec_witness:
  "Flash_AllocateVar 0x00080000 0x05 1 = Some (Some 0x00080001, 0x07) \<and>
   first_fit 0x05 1 = Some 1 \<and>
   window_free 0x05 1 1 \<and> \<not> window_free 0x05 1 0 \<and>
   Flash_AllocateVar 0x00080000 0x05 2 = Some (Some 0x00080004, 0x35) \<and>
   Flash_AllocateVar 0x00080000 0x05 3 = Some (None, 0x05) \<and>
   Flash_AllocateVar 0x00080000 0xFF 2 = Some (None, 0xFF)"
proof -
  have w: "window_free 0x05 1 1" "\<not> window_free 0x05 1 0" "\<not> window_free 0x05 2 0"
    "\<not> window_free 0x05 2 2" "window_free 0x05 2 4"
    by (simp_all add: window_free_mask mask_eq_exp_minus_1)
  have f: "first_fit 0x05 1 = Some 1" "first_fit 0x05 2 = Some 4"
    by (simp_all add: first_fit_find upt4 mask_eq_exp_minus_1 upt_rec)
  show ?thesis
    using Flash_AllocateVar_spec [of "0x00080000" "0x05" 1]
      Flash_AllocateVar_spec [of "0x00080000" "0x05" 2]
      Flash_AllocateVar_spec [of "0x00080000" "0x05" 3] w f
    by (simp add: mark_window_def mask_eq_exp_minus_1)
qed

subsection \<open>Flash writes\<close>

lemma store_bytes_length:
  "at + length bs \<le> length phrase \<Longrightarrow> length (store_bytes phrase at bs) = length phrase"
  by (simp add: store_bytes_def)

lemma store_bytes_nth:
  assumes "at + length bs \<le> length phrase" and "i < length phrase"
  shows "store_bytes phrase at bs ! i =
         (if at \<le> i \<and> i < at + length bs then bs ! (i - at) else phrase ! i)"
  using assms by (auto simp add: store_bytes_def nth_append)

lemma le_bytes_length: "length (le_bytes n w) = n"
  by (simp add: le_bytes_def)

lemma ModifySector_ok:
  assumes "True \<notin> set (take 2 (Errors fl))" and "length (Phrase fl) = 8" and "length phrase = 8"
  shows "ModifySector a phrase fl = (True, fl\<lparr>Phrase := phrase, Errors := drop 2 (Errors fl)\<rparr>)"
proof -
  have ff: "(0xFF::byte) AND x = x" for x
  proof -
    have e: "(0xFF::byte) = - 1" by simp
    show ?thesis unfolding e by (rule and.left_neutral)
  qed
  have and_ff: "map2 (AND) (replicate 8 (0xFF::byte)) phrase = phrase"
    using assms(3) by (simp add: list_eq_iff_nth_eq ff)
  show ?thesis
  proof (cases "Errors fl")
    case Nil
    then show ?thesis
      by (simp add: ModifySector_def and_also_def EraseSector_def WritePhrase_def
          LaunchCommand_def perform_def and_ff)
  next
    case (Cons e es)
    then have e: "\<not> e" using assms(1) by auto
    show ?thesis
    proof (cases es)
      case Nil
      then show ?thesis
        using Cons e
        by (simp add: ModifySector_def and_also_def EraseSector_def WritePhrase_def
            LaunchCommand_def perform_def and_ff)
    next
      case (Cons e2 es2)
      then have "\<not> e2" using assms(1) \<open>Errors fl = e # es\<close> by auto
      then show ?thesis
        using Cons \<open>Errors fl = e # es\<close> e
        by (simp add: ModifySector_def and_also_def EraseSector_def WritePhrase_def
            LaunchCommand_def perform_def and_ff)
    qed
  qed
qed


lemma Flash_WriteN_check:
  fixes sz :: byte and address S E :: "32 word"
  assumes sz: "sz = 1 \<or> sz = 2 \<or> sz = 4"
    and nowrap: "unat address + unat sz < 2 ^ 32"
  shows "(address < S \<or> address + ucast sz > E) = (unat address < unat S \<or> unat E < unat address + unat sz)"
    and "(address mod ucast sz \<noteq> 0) = (\<not> unat sz dvd unat address)"
    and "sz \<noteq> 0"
proof -
  have "unat sz < 2 ^ 32" using sz by auto
  then have u: "unat (ucast sz :: 32 word) = unat sz"
    by (simp add: unsigned_ucast_eq take_bit_nat_eq_self)
  have sum: "unat (address + ucast sz) = unat address + unat sz"
    using nowrap u by (simp add: unat_add_lem [THEN iffD1])
  show "(address < S \<or> address + ucast sz > E) = (unat address < unat S \<or> unat E < unat address + unat sz)"
    by (simp add: word_less_nat_alt sum)
  have "unat (address mod ucast sz) = unat address mod unat sz"
    by (simp add: unat_mod u)
  then show "(address mod ucast sz \<noteq> 0) = (\<not> unat sz dvd unat address)"
    by (metis dvd_eq_mod_eq_0 unat_eq_zero)
  show "sz \<noteq> 0" using sz by auto
qed

text \<open>
  C7, as amended. Take a write of size 1, 2 or 4 whose \<^verbatim>\<open>address + size\<close> does not
  pass the end of the 32-bit address range. When the address is below
  \<^verbatim>\<open>FLASH_DATA_START\<close>, or \<^verbatim>\<open>address + size\<close> is above \<^verbatim>\<open>FLASH_DATA_END\<close>, or the
  address is not a multiple of the size, \<^verbatim>\<open>Flash_WriteN\<close> returns false and the
  device is as it was. Otherwise, for a write of one byte (with \<^verbatim>\<open>FLASH_DATA_END\<close>
  at most 8 above \<^verbatim>\<open>FLASH_DATA_START\<close>), it builds a copy of the stored phrase in
  which the byte at offset \<open>address - FLASH_DATA_START\<close> is the data byte and every
  other byte is the stored one, and passes this copy to \<^verbatim>\<open>ModifySector\<close>, which
  erases the sector and then programs the copy. When the erase and the program
  command both succeed the call returns true and the stored phrase is this copy:
  every byte outside the written one is what it was. Of a valid write of two or four
  bytes the statement says nothing.
\<close>

theorem Flash_WriteN_frame:
  "(sz = 1 \<or> sz = 2 \<or> sz = 4) \<and> unat address + unat sz < 2 ^ 32 \<longrightarrow>
     ((unat address < unat S \<or> unat E < unat address + unat sz \<or> \<not> unat sz dvd unat address \<longrightarrow>
         Flash_WriteN S E address datum sz fl = Returns (False, fl)) \<and>
      (sz = 1 \<and> unat S \<le> unat address \<and> unat address + unat sz \<le> unat E \<and>
       unat E \<le> unat S + 8 \<and> length (Phrase fl) = 8 \<longrightarrow>
         (\<exists>phrase. length phrase = 8 \<and>
            (\<forall>i<8. phrase ! i =
               (if i = unat address - unat S then ucast datum else Phrase fl ! i)) \<and>
            Flash_WriteN S E address datum sz fl = Returns (ModifySector S phrase fl) \<and>
            (True \<notin> set (take 2 (Errors fl)) \<longrightarrow>
               Flash_WriteN S E address datum sz fl =
                 Returns (True, fl\<lparr>Phrase := phrase, Errors := drop 2 (Errors fl)\<rparr>)))))"
proof (intro impI conjI)
  assume a: "(sz = 1 \<or> sz = 2 \<or> sz = 4) \<and> unat address + unat sz < 2 ^ 32"
  assume bad: "unat address < unat S \<or> unat E < unat address + unat sz \<or> \<not> unat sz dvd unat address"
  have sz: "sz = 1 \<or> sz = 2 \<or> sz = 4" and nowrap: "unat address + unat sz < 2 ^ 32"
    using a by simp_all
  show "Flash_WriteN S E address datum sz fl = Returns (False, fl)"
    using bad Flash_WriteN_check [OF sz nowrap]
    by (auto simp add: Flash_WriteN_def)
next
  assume a: "(sz = 1 \<or> sz = 2 \<or> sz = 4) \<and> unat address + unat sz < 2 ^ 32"
  assume ok: "sz = 1 \<and> unat S \<le> unat address \<and> unat address + unat sz \<le> unat E \<and>
       unat E \<le> unat S + 8 \<and> length (Phrase fl) = 8"
  have sz: "sz = 1 \<or> sz = 2 \<or> sz = 4" and nowrap: "unat address + unat sz < 2 ^ 32"
    using a by simp_all
  have one: "sz = 1" using ok by simp
  define off where "off = unat address - unat S"
  define phrase where "phrase = store_bytes (Phrase fl) off (le_bytes (unat sz) datum)"
  have off: "unat (address - S) = off"
    using ok by (simp add: off_def unat_sub word_le_nat_alt)
  have fits: "off + unat sz \<le> 8" using ok unfolding off_def by linarith
  have bytes: "le_bytes (unat sz) datum = [ucast datum]"
    using one by (simp add: le_bytes_def)
  have fits': "off + length (le_bytes (unat sz) datum) \<le> length (Phrase fl)"
    using fits ok by (simp add: le_bytes_length)
  have len: "length phrase = 8"
    using store_bytes_length [OF fits'] ok by (simp add: phrase_def)
  have fits1: "off + length [ucast datum :: byte] \<le> length (Phrase fl)"
    using fits' by (simp add: bytes)
  have nth: "\<forall>i<8. phrase ! i = (if i = off then ucast datum else Phrase fl ! i)"
  proof (intro allI impI)
    fix i :: nat
    assume "i < 8"
    then have "i < length (Phrase fl)" using ok by simp
    from store_bytes_nth [OF fits1 this]
    show "phrase ! i = (if i = off then ucast datum else Phrase fl ! i)"
      unfolding phrase_def bytes by auto
  qed
  have pass: "\<not> (address < S \<or> address + ucast sz > E)" "\<not> address mod ucast sz \<noteq> 0" "sz \<noteq> 0"
    using ok Flash_WriteN_check [OF sz nowrap] by auto
  have run: "Flash_WriteN S E address datum sz fl = Returns (ModifySector S phrase fl)"
    using pass one fits ok
    by (simp add: Flash_WriteN_def SET_DATA_def Let_def off phrase_def)
  have good: "True \<notin> set (take 2 (Errors fl)) \<longrightarrow>
               Flash_WriteN S E address datum sz fl =
                 Returns (True, fl\<lparr>Phrase := phrase, Errors := drop 2 (Errors fl)\<rparr>)"
    using run ModifySector_ok [of fl phrase S] len ok by simp
  show "\<exists>phrase. length phrase = 8 \<and>
            (\<forall>i<8. phrase ! i =
               (if i = unat address - unat S then ucast datum else Phrase fl ! i)) \<and>
            Flash_WriteN S E address datum sz fl = Returns (ModifySector S phrase fl) \<and>
            (True \<notin> set (take 2 (Errors fl)) \<longrightarrow>
               Flash_WriteN S E address datum sz fl =
                 Returns (True, fl\<lparr>Phrase := phrase, Errors := drop 2 (Errors fl)\<rparr>))"
    using len nth run good unfolding off_def by blast
qed

theorem Flash_WriteN_frame_witness:
  "Flash_WriteN 0x00080000 0x00080008 0x00080002 0xEF 1
     \<lparr>Phrase = [1, 2, 3, 4, 5, 6, 7, 8], Errors = []\<rparr> =
     Returns (True, \<lparr>Phrase = [1, 2, 0xEF, 4, 5, 6, 7, 8], Errors = []\<rparr>) \<and>
   Flash_WriteN 0x00080000 0x00080008 0x00080007 0xBEEF 2
     \<lparr>Phrase = [1, 2, 3, 4, 5, 6, 7, 8], Errors = []\<rparr> =
     Returns (False, \<lparr>Phrase = [1, 2, 3, 4, 5, 6, 7, 8], Errors = []\<rparr>)"
proof -
  let ?fl = "\<lparr>Phrase = [1, 2, 3, 4, 5, 6, 7, 8 :: byte], Errors = []\<rparr>"
  have pre: "((1::byte) = 1 \<or> (1::byte) = 2 \<or> (1::byte) = 4) \<and>
             unat (0x00080002 :: 32 word) + unat (1::byte) < 2 ^ 32"
    by simp
  have pre': "((2::byte) = 1 \<or> (2::byte) = 2 \<or> (2::byte) = 4) \<and>
             unat (0x00080007 :: 32 word) + unat (2::byte) < 2 ^ 32"
    by simp
  have valid: "(1::byte) = 1 \<and> unat (0x00080000 :: 32 word) \<le> unat (0x00080002 :: 32 word) \<and>
       unat (0x00080002 :: 32 word) + unat (1::byte) \<le> unat (0x00080008 :: 32 word) \<and>
       unat (0x00080008 :: 32 word) \<le> unat (0x00080000 :: 32 word) + 8 \<and>
       length (Phrase ?fl) = 8"
    by simp
  have quiet: "True \<notin> set (take 2 (Errors ?fl))" by simp
  have invalid: "unat (0x00080007 :: 32 word) < unat (0x00080000 :: 32 word) \<or>
       unat (0x00080008 :: 32 word) < unat (0x00080007 :: 32 word) + unat (2::byte) \<or>
       \<not> unat (2::byte) dvd unat (0x00080007 :: 32 word)"
    by simp
  have ev: "Flash_WriteN 0x00080000 0x00080008 0x00080002 0xEF 1 ?fl =
     Returns (True, \<lparr>Phrase = [1, 2, 0xEF, 4, 5, 6, 7, 8], Errors = []\<rparr>)"
    by code_simp
  from Flash_WriteN_frame [of 1 "0x00080002" "0x00080000" "0x00080008" "0xEF" ?fl]
    pre valid quiet
  have "\<exists>phrase. Flash_WriteN 0x00080000 0x00080008 0x00080002 0xEF 1 ?fl =
                 Returns (True, ?fl\<lparr>Phrase := phrase, Errors := drop 2 (Errors ?fl)\<rparr>)"
    by blast
  moreover
  from Flash_WriteN_frame [of 2 "0x00080007" "0x00080000" "0x00080008" "0xBEEF" ?fl]
    pre' invalid
  have "Flash_WriteN 0x00080000 0x00080008 0x00080007 0xBEEF 2 ?fl = Returns (False, ?fl)"
    by blast
  ultimately show ?thesis using ev by simp
qed

text \<open>
  The claim as stated fails in three ways. When the erase succeeds and the program
  command reports an error, the phrase stays erased: a one-byte write at offset 0
  returns false and leaves \<open>0xFF\<close> in the seven bytes it was not writing. A
  one-byte write to address \<open>0xFFFFFFFF\<close> is not rejected, because
  \<^verbatim>\<open>address + size\<close> wraps to 0: the call goes on to a store far outside its copy
  of the phrase. And a valid two-byte write on a device that reports no error does
  not program a phrase that the program determines: the store into the copy goes
  through a \<^verbatim>\<open>uint16_t\<close> lvalue.
\<close>

theorem Flash_WriteN_frame_counterexample:
  "Flash_WriteN 0x00080000 0x00080008 0x00080000 0x00 1
     \<lparr>Phrase = [1, 2, 3, 4, 5, 6, 7, 8], Errors = [False, True]\<rparr> =
     Returns (False, \<lparr>Phrase = [0xFF, 0xFF, 0xFF, 0xFF, 0xFF, 0xFF, 0xFF, 0xFF],
                       Errors = []\<rparr>) \<and>
   Flash_WriteN 0x00080000 0x00080008 0xFFFFFFFF 0x00 1
     \<lparr>Phrase = [1, 2, 3, 4, 5, 6, 7, 8], Errors = []\<rparr> = Fault \<and>
   Flash_WriteN 0x00080000 0x00080008 0x00080002 0xBEEF 2
     \<lparr>Phrase = [1, 2, 3, 4, 5, 6, 7, 8], Errors = []\<rparr> = Fault"
proof -
  have erased: "Flash_WriteN 0x00080000 0x00080008 0x00080000 0x00 1
     \<lparr>Phrase = [1, 2, 3, 4, 5, 6, 7, 8], Errors = [False, True]\<rparr> =
     Returns (False, \<lparr>Phrase = [0xFF, 0xFF, 0xFF, 0xFF, 0xFF, 0xFF, 0xFF, 0xFF],
                       Errors = []\<rparr>)"
    by code_simp
  have wrapped: "Flash_WriteN 0x00080000 0x00080008 0xFFFFFFFF 0x00 1
     \<lparr>Phrase = [1, 2, 3, 4, 5, 6, 7, 8], Errors = []\<rparr> = Fault"
    by (simp add: Flash_WriteN_def)
  have punned: "Flash_WriteN 0x00080000 0x00080008 0x00080002 0xBEEF 2
     \<lparr>Phrase = [1, 2, 3, 4, 5, 6, 7, 8], Errors = []\<rparr> = Fault"
    by code_simp
  show ?thesis using erased wrapped punned by simp
qed

text \<open>
  C1 does not hold of the code. A word write whose erase command reports an error:
  \<^verbatim>\<open>Flash_WriteN\<close> returns false, and \<^verbatim>\<open>Flash_Write32\<close>, which calls it and falls
  off its end without a \<^verbatim>\<open>return\<close>, hands its caller a value the program does not
  determine. \<^verbatim>\<open>Flash_Write16\<close> and \<^verbatim>\<open>Flash_Write8\<close> do the same.
\<close>

theorem Flash_Write_result_lost:
  "Flash_WriteN 0x00080000 0x00080008 0x00080000 0x12345678 4
     \<lparr>Phrase = [1, 2, 3, 4, 5, 6, 7, 8], Errors = [True]\<rparr> =
     Returns (False, \<lparr>Phrase = [1, 2, 3, 4, 5, 6, 7, 8], Errors = []\<rparr>) \<and>
   Flash_Write32 0x00080000 0x00080008 0x00080000 0x12345678
     \<lparr>Phrase = [1, 2, 3, 4, 5, 6, 7, 8], Errors = [True]\<rparr> =
     Returns (Indeterminate, \<lparr>Phrase = [1, 2, 3, 4, 5, 6, 7, 8], Errors = []\<rparr>) \<and>
   Flash_Write16 0x00080000 0x00080008 0x00080000 0x1234
     \<lparr>Phrase = [1, 2, 3, 4, 5, 6, 7, 8], Errors = [True]\<rparr> =
     Returns (Indeterminate, \<lparr>Phrase = [1, 2, 3, 4, 5, 6, 7, 8], Errors = []\<rparr>) \<and>
   Flash_Write8 0x00080000 0x00080008 0x00080000 0x12
     \<lparr>Phrase = [1, 2, 3, 4, 5, 6, 7, 8], Errors = [True]\<rparr> =
     Returns (Indeterminate, \<lparr>Phrase = [1, 2, 3, 4, 5, 6, 7, 8], Errors = []\<rparr>)"
  by code_simp

end
